theory Spec2Isabelle
  imports Complex_Main
begin

section \<open>Errors and tensors\<close>

text \<open>
  The exceptions the module can raise, as values. \<open>NotImplementedError\<close> and
  \<open>ValueError\<close> are raised by the module itself, \<open>AssertionError\<close> by its
  \<^verbatim>\<open>assert\<close> statements, \<open>KeyError\<close>, \<open>IndexError\<close>, \<open>UnboundLocalError\<close>
  by the Python operations it uses, and \<open>RuntimeError\<close> by the tensor library
  (shape mismatches).
\<close>

datatype error =
  NotImplementedError | ValueError | AssertionError | KeyError | IndexError
  | UnboundLocalError | RuntimeError

definition ebind :: "error + 'a \<Rightarrow> ('a \<Rightarrow> error + 'b) \<Rightarrow> error + 'b" where
  "ebind m f = (case m of Inl e \<Rightarrow> Inl e | Inr x \<Rightarrow> f x)"

text \<open>
  A tensor is its shape and its entries in row-major order. Entries are real numbers:
  the model is the exact arithmetic the floating-point kernels approximate. A tensor of
  the library always has as many entries as its shape says (\<open>wf_tensor\<close>).
\<close>

record tensor =
  shape :: "nat list"
  data :: "real list"

definition numel :: "tensor \<Rightarrow> nat" where
  "numel t = prod_list (shape t)"

definition wf_tensor :: "tensor \<Rightarrow> bool" where
  "wf_tensor t = (length (data t) = numel t)"

text \<open>All multi-indices of a shape in row-major order, and the flat offset of one.\<close>

fun indices :: "nat list \<Rightarrow> nat list list" where
  "indices [] = [[]]"
| "indices (n # ns) = concat (map (\<lambda>i. map ((#) i) (indices ns)) [0..<n])"

fun ravel :: "nat list \<Rightarrow> nat list \<Rightarrow> nat" where
  "ravel (n # ns) (i # is) = i * prod_list ns + ravel ns is"
| "ravel _ _ = 0"

subsection \<open>Broadcasting element-wise operations\<close>

text \<open>
  Shapes are aligned at their last dimension; two dimensions are compatible when they
  are equal or one of them is 1. \<open>bshape_rev\<close> works on the reversed shapes.
\<close>

fun bshape_rev :: "nat list \<Rightarrow> nat list \<Rightarrow> nat list option" where
  "bshape_rev [] ys = Some ys"
| "bshape_rev xs [] = Some xs"
| "bshape_rev (x # xs) (y # ys) =
     (if x = y \<or> y = 1 then map_option ((#) x) (bshape_rev xs ys)
      else if x = 1 then map_option ((#) y) (bshape_rev xs ys)
      else None)"

definition broadcast_shapes :: "nat list \<Rightarrow> nat list \<Rightarrow> nat list option" where
  "broadcast_shapes s1 s2 = map_option rev (bshape_rev (rev s1) (rev s2))"

definition expand_index :: "nat list \<Rightarrow> nat list \<Rightarrow> nat list" where
  "expand_index s idx =
     map2 (\<lambda>n i. if n = 1 then 0 else i) s (drop (length idx - length s) idx)"

definition expand :: "nat list \<Rightarrow> tensor \<Rightarrow> tensor" where
  "expand s t =
     \<lparr>shape = s,
      data = map (\<lambda>idx. data t ! ravel (shape t) (expand_index (shape t) idx)) (indices s)\<rparr>"

definition binop :: "(real \<Rightarrow> real \<Rightarrow> real) \<Rightarrow> tensor \<Rightarrow> tensor \<Rightarrow> error + tensor" where
  "binop f a b =
     (if shape a = shape b
      then Inr \<lparr>shape = shape a, data = map2 f (data a) (data b)\<rparr>
      else (case broadcast_shapes (shape a) (shape b) of
              None \<Rightarrow> Inl RuntimeError
            | Some s \<Rightarrow>
                Inr \<lparr>shape = s, data = map2 f (data (expand s a)) (data (expand s b))\<rparr>))"

definition ones_like :: "tensor \<Rightarrow> tensor" where
  "ones_like t = \<lparr>shape = shape t, data = map (\<lambda>_. 1) (data t)\<rparr>"

definition mul_scalar :: "tensor \<Rightarrow> real \<Rightarrow> tensor" where
  "mul_scalar t c = \<lparr>shape = shape t, data = map (\<lambda>x. x * c) (data t)\<rparr>"

definition rsub_scalar :: "real \<Rightarrow> tensor \<Rightarrow> tensor" where
  "rsub_scalar c t = \<lparr>shape = shape t, data = map (\<lambda>x. c - x) (data t)\<rparr>"

subsection \<open>Softmax along the last axis\<close>

text \<open>
  The rows of a tensor along its last axis; a tensor without dimensions is one row of
  one entry.
\<close>

definition last_dim :: "nat list \<Rightarrow> nat" where
  "last_dim s = (if s = [] then 1 else last s)"

definition rows_of :: "nat \<Rightarrow> nat \<Rightarrow> 'a list \<Rightarrow> 'a list list" where
  "rows_of n d xs = map (\<lambda>r. take d (drop (r * d) xs)) [0..<n]"

definition rows :: "tensor \<Rightarrow> real list list" where
  "rows t = rows_of (prod_list (butlast (shape t))) (last_dim (shape t)) (data t)"

definition softmax_row :: "real list \<Rightarrow> real list" where
  "softmax_row xs = map (\<lambda>x. exp x / sum_list (map exp xs)) xs"

definition softmax :: "tensor \<Rightarrow> tensor" where
  "softmax t = \<lparr>shape = shape t, data = concat (map softmax_row (rows t))\<rparr>"

section \<open>Action masking\<close>

text \<open>
  \<^verbatim>\<open>apply_logit_mask(logits, mask=None)\<close>: without a mask the logits are returned;
  otherwise \<^verbatim>\<open>ones_like(logits) * -10000000\<close> is multiplied by \<^verbatim>\<open>1 - mask\<close> and
  added to the logits.
\<close>

definition apply_logit_mask :: "tensor \<Rightarrow> tensor option \<Rightarrow> error + tensor" where
  "apply_logit_mask logits amask =
     (case amask of
        None \<Rightarrow> Inr logits
      | Some m \<Rightarrow>
          ebind (binop (*) (mul_scalar (ones_like logits) (- 10000000)) (rsub_scalar 1 m))
            (\<lambda>logit_mask. binop (+) logits logit_mask))"


section \<open>Tensor operations of the observation pipeline\<close>

text \<open>
  \<^verbatim>\<open>reshape\<close> with at most one dimension given as \<open>-1\<close>, which is inferred from
  the number of entries. The library refuses to infer it when the other dimensions
  multiply to 0 (any value would do), and refuses a shape with another entry count.
\<close>

definition reshape :: "int list \<Rightarrow> tensor \<Rightarrow> error + tensor" where
  "reshape dims t =
     (let known = filter (\<lambda>d. d \<noteq> - 1) dims;
          newsize = prod_list (map nat known)
      in if list_ex (\<lambda>d. d < - 1) dims \<or> length known + 1 < length dims then Inl RuntimeError
         else if length known = length dims then
           (if numel t = newsize then Inr \<lparr>shape = map nat dims, data = data t\<rparr>
            else Inl RuntimeError)
         else if numel t = newsize \<or> (0 < newsize \<and> numel t mod newsize = 0) then
           (if newsize = 0 then Inl RuntimeError
            else Inr \<lparr>shape = map (\<lambda>d. if d = - 1 then numel t div newsize else nat d) dims,
                      data = data t\<rparr>)
         else Inl RuntimeError)"

text \<open>A dimension or an index counted from the end when negative.\<close>

definition norm_index :: "nat \<Rightarrow> int \<Rightarrow> nat option" where
  "norm_index n i =
     (if 0 \<le> i \<and> i < int n then Some (nat i)
      else if - int n \<le> i \<and> i < 0 then Some (nat (i + int n))
      else None)"

fun index_of :: "'a list \<Rightarrow> 'a \<Rightarrow> nat" where
  "index_of [] y = 0"
| "index_of (x # xs) y = (if x = y then 0 else Suc (index_of xs y))"

definition permute :: "int list \<Rightarrow> tensor \<Rightarrow> error + tensor" where
  "permute dims t =
     (let r = length (shape t)
      in if length dims \<noteq> r then Inl RuntimeError
         else (case those (map (norm_index r) dims) of
                 None \<Rightarrow> Inl IndexError
               | Some p \<Rightarrow>
                   if \<not> distinct p then Inl RuntimeError
                   else let s' = map (\<lambda>k. shape t ! k) p
                        in Inr \<lparr>shape = s',
                                data = map (\<lambda>idx. data t !
                                         ravel (shape t) (map (\<lambda>d. idx ! index_of p d) [0..<r]))
                                       (indices s')\<rparr>))"

text \<open>\<^verbatim>\<open>obs[:, ids]\<close>: the listed indices along the second dimension.\<close>

definition select_agents :: "int list \<Rightarrow> tensor \<Rightarrow> error + tensor" where
  "select_agents ids t =
     (case shape t of
        e # n # rest \<Rightarrow>
          (case those (map (norm_index n) ids) of
             None \<Rightarrow> Inl IndexError
           | Some js \<Rightarrow>
               let blk = prod_list rest
               in Inr \<lparr>shape = e # length js # rest,
                       data = concat (map (\<lambda>i. concat (map (\<lambda>j.
                                take blk (drop ((i * n + j) * blk) (data t))) js)) [0..<e])\<rparr>)
      | _ \<Rightarrow> Inl IndexError)"

text \<open>
  \<^verbatim>\<open>torch.cat(ts, dim=-1)\<close>: the list must not be empty, and the tensors must agree
  on every dimension but the last.
\<close>

definition cat_last :: "tensor list \<Rightarrow> error + tensor" where
  "cat_last ts =
     (case ts of
        [] \<Rightarrow> Inl RuntimeError
      | t # _ \<Rightarrow>
          if list_ex (\<lambda>u. shape u = [] \<or> butlast (shape u) \<noteq> butlast (shape t)) ts
          then Inl RuntimeError
          else Inr \<lparr>shape = butlast (shape t) @ [sum_list (map (\<lambda>u. last (shape u)) ts)],
                    data = concat (map (\<lambda>r. concat (map (\<lambda>u.
                             take (last (shape u)) (drop (r * last (shape u)) (data u))) ts))
                           [0..<prod_list (butlast (shape t))])\<rparr>)"

text \<open>\<^verbatim>\<open>t[..., 0]\<close>: entry 0 of every row.\<close>

definition select_last0 :: "tensor \<Rightarrow> error + tensor" where
  "select_last0 t =
     (if shape t = [] \<or> last (shape t) = 0 then Inl IndexError
      else Inr \<lparr>shape = butlast (shape t), data = map (\<lambda>r. r ! 0) (rows t)\<rparr>)"

subsection \<open>Layers\<close>

text \<open>
  \<^verbatim>\<open>nn.Linear(in_features, out_features)\<close> with its weight matrix and bias; the
  library draws the initial values at random, so the constructor below takes them as
  an argument. A layer is applied to the last axis of its input.
\<close>

record linear =
  in_features :: nat
  out_features :: nat
  weight :: "nat \<Rightarrow> nat \<Rightarrow> real"
  bias :: "nat \<Rightarrow> real"

definition nn_Linear :: "(nat \<Rightarrow> nat \<Rightarrow> real) \<times> (nat \<Rightarrow> real) \<Rightarrow> nat \<Rightarrow> nat \<Rightarrow> linear" where
  "nn_Linear wb n_in n_out =
     \<lparr>in_features = n_in, out_features = n_out, weight = fst wb, bias = snd wb\<rparr>"

definition linear_row :: "linear \<Rightarrow> real list \<Rightarrow> real list" where
  "linear_row l r =
     map (\<lambda>j. (\<Sum>i\<leftarrow>[0..<in_features l]. r ! i * weight l j i) + bias l j) [0..<out_features l]"

definition linear_apply :: "linear \<Rightarrow> tensor \<Rightarrow> error + tensor" where
  "linear_apply l x =
     (if shape x = [] \<or> last (shape x) \<noteq> in_features l then Inl RuntimeError
      else Inr \<lparr>shape = butlast (shape x) @ [out_features l],
                data = concat (map (linear_row l) (rows x))\<rparr>)"

definition relu :: "tensor \<Rightarrow> tensor" where
  "relu t = \<lparr>shape = shape t, data = map (max 0) (data t)\<rparr>"

text \<open>One trunk layer: \<^verbatim>\<open>nn.Sequential(nn.Linear(...), nn.ReLU())\<close>.\<close>

definition fc_layer :: "linear \<Rightarrow> tensor \<Rightarrow> error + tensor" where
  "fc_layer l x = ebind (linear_apply l x) (\<lambda>y. Inr (relu y))"


section \<open>The network\<close>

text \<open>
  The space descriptors of the environment. A \<open>Box\<close> has a shape; a \<open>Dict\<close> maps its
  keys, each once and in iteration order, to entries of which the module reads the
  shape only; \<open>Discrete n\<close> and \<open>MultiDiscrete nvec\<close> are the supported action spaces;
  \<open>OtherSpace\<close> stands for every other kind of descriptor.
\<close>

datatype space =
  Box "nat list"
  | Dict "(string \<times> nat list) list"
  | Discrete nat
  | MultiDiscrete "nat list"
  | OtherSpace

text \<open>
  \<^verbatim>\<open>Constants.OBSERVATIONS\<close> and \<^verbatim>\<open>Constants.ACTION_MASK\<close> are defined in another
  module of the package; the functions below take them as a parameter.
\<close>

record Constants =
  OBSERVATIONS :: string
  ACTION_MASK :: string

text \<open>
  The environment wrapper: the number of agents and the per-agent spaces of the wrapped
  environment. Its GPU data manager, \<^verbatim>\<open>env.cuda_data_manager.data_on_device_via_torch\<close>, is
  external mutable state: the methods that read it take it as the argument \<open>dm\<close>, a
  lookup by buffer name that may fail.
\<close>

record env =
  n_agents :: nat
  env_observation_space :: "int \<rightharpoonup> space"
  env_action_space :: "int \<rightharpoonup> space"

type_synonym data_manager = "string \<Rightarrow> error + tensor"

datatype config_value = IntList "nat list" | OtherValue

record FullyConnected =
  env :: env
  policy :: string
  policy_tag_to_agent_id_map :: "string \<rightharpoonup> int list"
  create_separate_placeholders_for_each_policy :: bool
  obs_dim_corresponding_to_num_agents :: string
  fast_forward_mode :: bool
  observation_space :: space
  fc :: "linear list"
  policy_head :: "linear list"
  vf_head :: linear
  action_mask :: "tensor option"

subsection \<open>Observation size\<close>

text \<open>
  \<^verbatim>\<open>get_flattened_obs_size\<close> reads \<^verbatim>\<open>self.observation_space\<close> only, and the
  constructor calls it before the other attributes exist: it is given the space.
\<close>

fun dict_obs_size :: "Constants \<Rightarrow> (string \<times> nat list) list \<Rightarrow> nat \<Rightarrow> nat" where
  "dict_obs_size c [] obs_size = obs_size"
| "dict_obs_size c ((key, entry_shape) # rest) obs_size =
     (if key = ACTION_MASK c then dict_obs_size c rest obs_size
      else dict_obs_size c rest (obs_size + prod_list entry_shape))"

definition get_flattened_obs_size :: "Constants \<Rightarrow> space \<Rightarrow> error + nat" where
  "get_flattened_obs_size c sp =
     (case sp of
        Box sh \<Rightarrow> Inr (prod_list sh)
      | Dict entries \<Rightarrow> Inr (dict_obs_size c entries 0)
      | _ \<Rightarrow> Inl NotImplementedError)"

subsection \<open>Construction\<close>

text \<open>
  \<^verbatim>\<open>__init__\<close>, statement by statement: the lookup of \<^verbatim>\<open>model_config["fc_dims"]\<close> and the
  assertion that it is a list, the assertion on the agent dimension (assertions are
  executed), the first agent of the policy, its observation space and the flattened
  size, its action space, and the layers. \<^verbatim>\<open>fc_dims[-1]\<close> fails for an empty list.
\<close>

definition init ::
  "Constants \<Rightarrow> env \<Rightarrow> (string \<rightharpoonup> config_value) \<Rightarrow> string \<Rightarrow> (string \<rightharpoonup> int list) \<Rightarrow> bool \<Rightarrow>
   string \<Rightarrow> (nat \<Rightarrow> (nat \<Rightarrow> nat \<Rightarrow> real) \<times> (nat \<Rightarrow> real)) \<Rightarrow> error + FullyConnected" where
  "init c env' model_config policy' tag_map separate dim_pos params =
     (case model_config ''fc_dims'' of
        None \<Rightarrow> Inl KeyError
      | Some OtherValue \<Rightarrow> Inl AssertionError
      | Some (IntList fc_dims) \<Rightarrow>
     let num_fc_layers = length fc_dims
     in if dim_pos \<notin> set [''first'', ''last''] then Inl AssertionError
     else (case tag_map policy' of
        None \<Rightarrow> Inl KeyError
      | Some [] \<Rightarrow> Inl IndexError
      | Some (sample_agent_id # _) \<Rightarrow>
     (case env_observation_space env' sample_agent_id of
        None \<Rightarrow> Inl KeyError
      | Some obs_space \<Rightarrow>
     ebind (get_flattened_obs_size c obs_space) (\<lambda>flattened_obs_size.
     (case env_action_space env' sample_agent_id of
        None \<Rightarrow> Inl KeyError
      | Some act \<Rightarrow>
     ebind (case act of
              Discrete n \<Rightarrow> Inr [n]
            | MultiDiscrete nvec \<Rightarrow> Inr nvec
            | _ \<Rightarrow> Inl NotImplementedError) (\<lambda>action_space.
     let input_dims = flattened_obs_size # butlast fc_dims;
         output_dims = fc_dims
     in if fc_dims = [] then Inl IndexError
        else Inr \<lparr>env = env',
                  policy = policy',
                  policy_tag_to_agent_id_map = tag_map,
                  create_separate_placeholders_for_each_policy = separate,
                  obs_dim_corresponding_to_num_agents = dim_pos,
                  fast_forward_mode = False,
                  observation_space = obs_space,
                  fc = map (\<lambda>fc_layer.
                         nn_Linear (params fc_layer) (input_dims ! fc_layer)
                           (output_dims ! fc_layer)) [0..<num_fc_layers],
                  policy_head = map (\<lambda>(idx, act_space).
                         nn_Linear (params (num_fc_layers + idx)) (last fc_dims) act_space)
                       (enumerate 0 action_space),
                  vf_head = nn_Linear (params (num_fc_layers + length action_space))
                       (last fc_dims) 1,
                  action_mask = None\<rparr>))))))"

subsection \<open>Reshaping and assembling observations\<close>

text \<open>
  The first lines of \<^verbatim>\<open>reshape_and_flatten_obs\<close>: the number of agents is the length
  of the policy's agent list with separate placeholders, and the environment's agent
  count otherwise.
\<close>

definition num_agents_of :: "FullyConnected \<Rightarrow> error + nat" where
  "num_agents_of self =
     (if create_separate_placeholders_for_each_policy self
      then (case policy_tag_to_agent_id_map self (policy self) of
              None \<Rightarrow> Inl KeyError
            | Some ids \<Rightarrow> Inr (length ids))
      else Inr (n_agents (env self)))"

definition reshape_and_flatten_obs :: "FullyConnected \<Rightarrow> tensor \<Rightarrow> error + tensor" where
  "reshape_and_flatten_obs self obs =
     (case shape obs of
        [] \<Rightarrow> Inl IndexError
      | num_envs # _ \<Rightarrow>
     ebind (num_agents_of self) (\<lambda>num_agents.
     ebind (if obs_dim_corresponding_to_num_agents self = ''first'' then Inr obs
            else if obs_dim_corresponding_to_num_agents self = ''last'' then
              (let shape_len = length (shape obs)
               in ebind (if shape_len = 1 then reshape [- 1, int num_agents] obs else Inr obs)
                    (\<lambda>obs1. permute ([0, - 1] @ map int [1..<shape_len - 1]) obs1))
            else Inl ValueError) (\<lambda>obs2.
     reshape [int num_envs, int num_agents, - 1] obs2)))"

text \<open>\<^verbatim>\<open>d[key] = v\<close> on a dictionary kept in insertion order.\<close>

fun dict_set :: "('k \<times> 'v) list \<Rightarrow> 'k \<Rightarrow> 'v \<Rightarrow> ('k \<times> 'v) list" where
  "dict_set [] k v = [(k, v)]"
| "dict_set ((k', v') # d) k v = (if k' = k then (k, v) # d else (k', v') # dict_set d k v)"

text \<open>
  The first loop of \<^verbatim>\<open>get_flattened_obs\<close> over the keys of a \<open>Dict\<close> space: every
  buffer is fetched; the action-mask buffer is reshaped and stored in
  \<^verbatim>\<open>self.action_mask\<close>, the others are collected in \<^verbatim>\<open>obs_dict\<close>.
\<close>

fun fetch_loop ::
  "Constants \<Rightarrow> data_manager \<Rightarrow> (string \<times> nat list) list \<Rightarrow> FullyConnected \<Rightarrow>
   (string \<times> tensor) list \<Rightarrow> error + ((string \<times> tensor) list \<times> FullyConnected)" where
  "fetch_loop c dm [] self obs_dict = Inr (obs_dict, self)"
| "fetch_loop c dm ((key, entry_shape) # rest) self obs_dict =
     ebind (if create_separate_placeholders_for_each_policy self
            then dm (OBSERVATIONS c @ ''_'' @ policy self @ ''_'' @ key)
            else dm (OBSERVATIONS c @ ''_'' @ key)) (\<lambda>obs.
     if key = ACTION_MASK c
     then ebind (reshape_and_flatten_obs self obs) (\<lambda>m.
            fetch_loop c dm rest (self\<lparr>action_mask := Some m\<rparr>) obs_dict)
     else fetch_loop c dm rest self (dict_set obs_dict key obs))"

text \<open>The second loop: every collected buffer is reshaped, in order.\<close>

fun flatten_loop ::
  "FullyConnected \<Rightarrow> (string \<times> tensor) list \<Rightarrow> (string \<times> tensor) list \<Rightarrow>
   error + (string \<times> tensor) list" where
  "flatten_loop self [] flattened_obs_dict = Inr flattened_obs_dict"
| "flatten_loop self ((key, obs) # rest) flattened_obs_dict =
     ebind (reshape_and_flatten_obs self obs) (\<lambda>f.
       flatten_loop self rest (dict_set flattened_obs_dict key f))"

definition get_flattened_obs ::
  "Constants \<Rightarrow> data_manager \<Rightarrow> FullyConnected \<Rightarrow> error + (tensor \<times> FullyConnected)" where
  "get_flattened_obs c dm self =
     (case observation_space self of
        Box sh \<Rightarrow>
          ebind (if create_separate_placeholders_for_each_policy self
                 then dm (OBSERVATIONS c @ ''_'' @ policy self)
                 else dm (OBSERVATIONS c)) (\<lambda>obs.
          ebind (reshape_and_flatten_obs self obs) (\<lambda>flattened_obs.
          Inr (flattened_obs, self)))
      | Dict entries \<Rightarrow>
          ebind (fetch_loop c dm entries self []) (\<lambda>(obs_dict, self1).
          ebind (flatten_loop self1 obs_dict []) (\<lambda>flattened_obs_dict.
          ebind (cat_last (map snd flattened_obs_dict)) (\<lambda>flattened_obs.
          Inr (flattened_obs, self1))))
      | _ \<Rightarrow> Inl NotImplementedError)"

subsection \<open>Fast-forward mode and the forward pass\<close>

text \<open>\<^verbatim>\<open>set_fast_forward_mode\<close> sets the flag and prints a message.\<close>

definition set_fast_forward_mode :: "FullyConnected \<Rightarrow> FullyConnected \<times> string" where
  "set_fast_forward_mode self =
     (self\<lparr>fast_forward_mode := True\<rparr>,
      ''the model torch_fully_connected turns on the fast_forward_mode to speed up '' @
      ''the forward calculation (there is only one policy with discrete '' @
      ''action space, therefore in the model forward there is no need to have '' @
      ''an explicit mapping to agents which is slow) '')"

text \<open>
  The first part of \<^verbatim>\<open>forward\<close>: the tensor \<^verbatim>\<open>ip\<close> that is fed to the trunk.
\<close>

definition forward_ip ::
  "Constants \<Rightarrow> data_manager \<Rightarrow> FullyConnected \<Rightarrow> tensor option \<Rightarrow>
   error + (tensor \<times> FullyConnected)" where
  "forward_ip c dm self obs =
     (case obs of
        None \<Rightarrow>
          ebind (get_flattened_obs c dm self) (\<lambda>(obs1, self1).
            if \<not> fast_forward_mode self1
               \<and> \<not> create_separate_placeholders_for_each_policy self1
            then (case policy_tag_to_agent_id_map self1 (policy self1) of
                    None \<Rightarrow> Inl KeyError
                  | Some agent_ids_for_policy \<Rightarrow>
                      ebind (select_agents agent_ids_for_policy obs1) (\<lambda>ip. Inr (ip, self1)))
            else Inr (obs1, self1))
      | Some obs1 \<Rightarrow> Inr (obs1, self))"

text \<open>
  The loop over the trunk layers; \<^verbatim>\<open>op\<close> is unbound until the first layer has run.
\<close>

fun fc_loop :: "linear list \<Rightarrow> tensor \<Rightarrow> tensor option \<Rightarrow> error + tensor option" where
  "fc_loop [] ip op = Inr op"
| "fc_loop (l # ls) ip op = ebind (fc_layer l ip) (\<lambda>op1. fc_loop ls op1 (Some op1))"

text \<open>The list comprehension over the policy heads.\<close>

fun action_probs_of :: "linear list \<Rightarrow> tensor \<Rightarrow> tensor option \<Rightarrow> error + tensor list" where
  "action_probs_of [] op m = Inr []"
| "action_probs_of (ph # phs) op m =
     ebind (linear_apply ph op) (\<lambda>logits.
     ebind (apply_logit_mask logits m) (\<lambda>masked.
     ebind (action_probs_of phs op m) (\<lambda>rest.
     Inr (softmax masked # rest))))"

definition forward_heads :: "FullyConnected \<Rightarrow> tensor \<Rightarrow> error + (tensor list \<times> tensor)" where
  "forward_heads self ip =
     ebind (fc_loop (fc self) ip None) (\<lambda>op_opt.
       case op_opt of
         None \<Rightarrow> Inl UnboundLocalError
       | Some op \<Rightarrow>
           ebind (action_probs_of (policy_head self) op (action_mask self)) (\<lambda>action_probs.
           ebind (linear_apply (vf_head self) op) (\<lambda>vals.
           ebind (select_last0 vals) (\<lambda>v. Inr (action_probs, v)))))"

definition forward ::
  "Constants \<Rightarrow> data_manager \<Rightarrow> FullyConnected \<Rightarrow> tensor option \<Rightarrow>
   error + ((tensor list \<times> tensor) \<times> FullyConnected)" where
  "forward c dm self obs =
     ebind (forward_ip c dm self obs) (\<lambda>(ip, self1).
     ebind (forward_heads self1 ip) (\<lambda>out. Inr (out, self1)))"


subsection \<open>Predicates of the statements\<close>


text \<open>The space kinds the module supports.\<close>

definition is_box_or_dict :: "space \<Rightarrow> bool" where
  "is_box_or_dict sp = (case sp of Box _ \<Rightarrow> True | Dict _ \<Rightarrow> True | _ \<Rightarrow> False)"

definition is_discrete_or_multidiscrete :: "space \<Rightarrow> bool" where
  "is_discrete_or_multidiscrete sp =
     (case sp of Discrete _ \<Rightarrow> True | MultiDiscrete _ \<Rightarrow> True | _ \<Rightarrow> False)"

text \<open>The number of features of one entry of a \<open>Dict\<close> space.\<close>

definition entry_size :: "string \<times> nat list \<Rightarrow> nat" where
  "entry_size e = prod_list (snd e)"

text \<open>The setting of the agent dimension that the constructor accepts.\<close>

definition dim_ok :: "FullyConnected \<Rightarrow> bool" where
  "dim_ok self = (obs_dim_corresponding_to_num_agents self = ''first''
     \<or> obs_dim_corresponding_to_num_agents self = ''last'')"


subsection \<open>A concrete instance\<close>

text \<open>
  One agent governed by policy \<open>p\<close>, a \<open>Dict\<close> observation space with an action mask over
  two actions and one feature, one trunk layer of width 1, all parameters 0; and two
  states of the data manager.
\<close>

definition c0 :: Constants where
  "c0 = \<lparr>OBSERVATIONS = ''observations'', ACTION_MASK = ''action_mask''\<rparr>"

definition params0 :: "nat \<Rightarrow> (nat \<Rightarrow> nat \<Rightarrow> real) \<times> (nat \<Rightarrow> real)" where
  "params0 k = (\<lambda>j i. 0, \<lambda>j. 0)"

definition env_a :: env where
  "env_a = \<lparr>n_agents = 1,
            env_observation_space = [0 \<mapsto> Dict [(''action_mask'', [2]), (''x'', [1])]],
            env_action_space = [0 \<mapsto> Discrete 2]\<rparr>"

definition config_a :: "string \<rightharpoonup> config_value" where
  "config_a = [''fc_dims'' \<mapsto> IntList [1]]"

definition tag_map_a :: "string \<rightharpoonup> int list" where
  "tag_map_a = [''p'' \<mapsto> [0]]"

definition net_a :: FullyConnected where
  "net_a = \<lparr>env = env_a, policy = ''p'', policy_tag_to_agent_id_map = tag_map_a,
            create_separate_placeholders_for_each_policy = False,
            obs_dim_corresponding_to_num_agents = ''first'',
            fast_forward_mode = False,
            observation_space = Dict [(''action_mask'', [2]), (''x'', [1])],
            fc = [nn_Linear (params0 0) 1 1],
            policy_head = [nn_Linear (params0 1) 1 2],
            vf_head = nn_Linear (params0 2) 1 1,
            action_mask = None\<rparr>"

definition dm_a :: data_manager where
  "dm_a name =
     (if name = ''observations_action_mask'' then Inr \<lparr>shape = [1, 1, 2], data = [1, 0]\<rparr>
      else if name = ''observations_x'' then Inr \<lparr>shape = [1, 1, 1], data = [5]\<rparr>
      else Inl KeyError)"

definition dm_b :: data_manager where
  "dm_b name =
     (if name = ''observations_action_mask'' then Inr \<lparr>shape = [1, 1, 2], data = [1, 1]\<rparr>
      else if name = ''observations_x'' then Inr \<lparr>shape = [1, 1, 1], data = [7]\<rparr>
      else Inl KeyError)"


text \<open>Two agents, of which policy \<open>p\<close> governs the first.\<close>

definition env_b :: env where
  "env_b = \<lparr>n_agents = 2,
            env_observation_space = [0 \<mapsto> Dict [(''action_mask'', [2]), (''x'', [1])],
                                     1 \<mapsto> Dict [(''action_mask'', [2]), (''x'', [1])]],
            env_action_space = [0 \<mapsto> Discrete 2, 1 \<mapsto> Discrete 2]\<rparr>"

definition tag_map_b :: "string \<rightharpoonup> int list" where
  "tag_map_b = [''p'' \<mapsto> [0], ''q'' \<mapsto> [1]]"

definition net_b :: FullyConnected where
  "net_b = net_a\<lparr>env := env_b, policy_tag_to_agent_id_map := tag_map_b\<rparr>"

text \<open>Every layer of a trunk takes what the layer before it gives.\<close>

fun chained :: "nat \<Rightarrow> linear list \<Rightarrow> bool" where
  "chained d [] = True"
| "chained d (l # ls) = (in_features l = d \<and> chained (out_features l) ls)"







section \<open>Softmax and rows\<close>

lemma sum_list_exp_nonneg: "0 \<le> sum_list (map exp (xs::real list))"
  by (induction xs) simp_all

lemma sum_list_exp_pos: "xs \<noteq> [] \<Longrightarrow> 0 < sum_list (map exp (xs::real list))"
  using sum_list_exp_nonneg by (cases xs) (simp_all add: add_pos_nonneg)

lemma sum_list_map_divide: "sum_list (map (\<lambda>x. f x / (c::real)) xs) = sum_list (map f xs) / c"
  by (induction xs) (simp_all add: add_divide_distrib)

lemma sum_list_softmax_row: "xs \<noteq> [] \<Longrightarrow> sum_list (softmax_row xs) = 1"
  using sum_list_exp_pos [of xs] by (simp add: softmax_row_def sum_list_map_divide)

lemma length_softmax_row: "length (softmax_row xs) = length xs"
  by (simp add: softmax_row_def)

lemma softmax_row_shift: "softmax_row (map (\<lambda>x. x + c) xs) = softmax_row xs"
proof -
  have "sum_list (map (\<lambda>x. exp (x + c)) xs) = sum_list (map exp xs) * exp c"
    by (induction xs) (simp_all add: exp_add algebra_simps)
  then show ?thesis
    by (simp add: softmax_row_def comp_def exp_add)
qed

lemma rows_of_map: "rows_of n d (map g xs) = map (map g) (rows_of n d xs)"
  by (simp add: rows_of_def take_map drop_map)

lemma rows_of_length:
  assumes "length xs = n * d" "r \<in> set (rows_of n d xs)"
  shows "length r = d"
proof -
  from assms(2) obtain k where k: "k < n" "r = take d (drop (k * d) xs)"
    by (auto simp: rows_of_def)
  have "Suc k * d \<le> n * d" using k(1) by (intro mult_le_mono1) simp
  then have "d \<le> n * d - k * d" by simp
  then show ?thesis using k(2) assms(1) by simp
qed

lemma length_rows_of: "length (rows_of n d xs) = n"
  by (simp add: rows_of_def)

lemma rows_of_Suc:
  "rows_of (Suc n) d xs = take d xs # rows_of n d (drop d xs)"
proof -
  have "[0..<Suc n] = 0 # map Suc [0..<n]"
    by (simp add: upt_conv_Cons map_Suc_upt del: upt_Suc)
  then show ?thesis
    by (simp add: rows_of_def comp_def add.commute del: upt_Suc)
qed

lemma rows_of_concat:
  "\<forall>r\<in>set rs. length r = d \<Longrightarrow> rows_of (length rs) d (concat rs) = rs"
proof (induction rs)
  case Nil
  then show ?case by (simp add: rows_of_def)
next
  case (Cons r rs)
  then show ?case by (simp add: rows_of_Suc)
qed

lemma length_concat_uniform: "\<forall>r\<in>set rs. length r = d \<Longrightarrow> length (concat rs) = length rs * d"
  by (induction rs) simp_all

lemma prod_list_butlast: "prod_list s = prod_list (butlast s) * last_dim (s::nat list)"
  by (cases s rule: rev_cases) (simp_all add: last_dim_def)

lemma wf_tensor_length:
  "wf_tensor t \<Longrightarrow> length (data t) = prod_list (butlast (shape t)) * last_dim (shape t)"
  unfolding wf_tensor_def numel_def by (simp only: prod_list_butlast [of "shape t"])

lemma rows_length: "wf_tensor t \<Longrightarrow> r \<in> set (rows t) \<Longrightarrow> length r = last_dim (shape t)"
  unfolding rows_def by (rule rows_of_length [OF wf_tensor_length])

lemma length_rows: "length (rows t) = prod_list (butlast (shape t))"
  by (simp add: rows_def length_rows_of)

lemma rows_mk: "rows \<lparr>shape = s, data = d\<rparr> = rows_of (prod_list (butlast s)) (last_dim s) d"
  by (simp add: rows_def)

lemma rows_softmax: "wf_tensor t \<Longrightarrow> rows (softmax t) = map softmax_row (rows t)"
proof -
  assume wf: "wf_tensor t"
  have "\<forall>r\<in>set (map softmax_row (rows t)). length r = last_dim (shape t)"
    using rows_length [OF wf] by (auto simp: length_softmax_row)
  from rows_of_concat [OF this] show ?thesis
    by (simp add: softmax_def rows_mk length_rows)
qed

lemma softmax_rows_sum:
  assumes "wf_tensor t" "0 < last_dim (shape t)" "r \<in> set (rows (softmax t))"
  shows "sum_list r = 1"
proof -
  from assms(3) obtain q where q: "q \<in> set (rows t)" "r = softmax_row q"
    by (auto simp: rows_softmax [OF assms(1)])
  have "q \<noteq> []" using rows_length [OF assms(1) q(1)] assms(2) by auto
  then show ?thesis using q(2) by (simp add: sum_list_softmax_row)
qed

lemma wf_softmax: "wf_tensor t \<Longrightarrow> wf_tensor (softmax t)"
proof -
  assume wf: "wf_tensor t"
  have "\<forall>r\<in>set (map softmax_row (rows t)). length r = last_dim (shape t)"
    using rows_length [OF wf] by (auto simp: length_softmax_row)
  from length_concat_uniform [OF this] show ?thesis
    using wf_tensor_length [OF wf] wf by (simp add: wf_tensor_def softmax_def length_rows numel_def)
qed

lemma softmax_shift:
  assumes "shape r = shape t" "data r = map (\<lambda>x. x + c) (data t)"
  shows "softmax r = softmax t"
  using assms by (simp add: softmax_def rows_def rows_of_map comp_def softmax_row_shift)

section \<open>Masking\<close>

lemma apply_logit_mask_same_shape:
  assumes "shape m = shape logits"
  shows "apply_logit_mask logits (Some m) =
    Inr \<lparr>shape = shape logits,
         data = map2 (\<lambda>l x. l + (- 10000000) * (1 - x)) (data logits) (data m)\<rparr>"
  using assms
  apply (simp add: apply_logit_mask_def ebind_def binop_def mul_scalar_def ones_like_def
      rsub_scalar_def)
  apply (rule nth_equalityI)
   apply (simp_all add: algebra_simps)
  done

text \<open>
  Claim C3. Without a mask \<open>apply_logit_mask\<close> returns the logits. With a mask of the
  shape of the logits it returns the logits plus \<open>-1e7 * (1 - mask)\<close>, entry by entry, so
  an entry whose mask value is 1 is the logit itself.
\<close>

theorem apply_logit_mask_spec:
  "apply_logit_mask logits None = Inr logits \<and>
   (shape m = shape logits \<longrightarrow>
     (\<exists>r. apply_logit_mask logits (Some m) = Inr r \<and> shape r = shape logits \<and>
        data r = map2 (\<lambda>l x. l + (- 10000000) * (1 - x)) (data logits) (data m) \<and>
        (\<forall>i < length (data r). data m ! i = 1 \<longrightarrow> data r ! i = data logits ! i)))"
proof -
  have "apply_logit_mask logits None = Inr logits"
    by (simp add: apply_logit_mask_def)
  moreover
  { assume s: "shape m = shape logits"
    let ?r = "\<lparr>shape = shape logits,
         data = map2 (\<lambda>l x. l + (- 10000000) * (1 - x)) (data logits) (data m)\<rparr>"
    have "apply_logit_mask logits (Some m) = Inr ?r"
      using s by (rule apply_logit_mask_same_shape)
    moreover have "\<forall>i < length (data ?r). data m ! i = 1 \<longrightarrow> data ?r ! i = data logits ! i"
      by simp
    ultimately have "\<exists>r. apply_logit_mask logits (Some m) = Inr r \<and> shape r = shape logits \<and>
        data r = map2 (\<lambda>l x. l + (- 10000000) * (1 - x)) (data logits) (data m) \<and>
        (\<forall>i < length (data r). data m ! i = 1 \<longrightarrow> data r ! i = data logits ! i)"
      by (intro exI [of _ ?r]) simp }
  ultimately show ?thesis by blast
qed

theorem apply_logit_mask_spec_witness:
  "apply_logit_mask \<lparr>shape = [2], data = [3, 5]\<rparr> None = Inr \<lparr>shape = [2], data = [3, 5]\<rparr> \<and>
   apply_logit_mask \<lparr>shape = [2], data = [3, 5]\<rparr> (Some \<lparr>shape = [2], data = [1, 0]\<rparr>)
     = Inr \<lparr>shape = [2], data = [3, - 9999995]\<rparr>"
proof -
  obtain r where r: "apply_logit_mask \<lparr>shape = [2], data = [3, 5]\<rparr> (Some \<lparr>shape = [2], data = [1, 0]\<rparr>) = Inr r"
    "shape r = [2]" "data r = [3, - 9999995]"
    using apply_logit_mask_spec [of "\<lparr>shape = [2], data = [3, 5]\<rparr>" "\<lparr>shape = [2], data = [1, 0]\<rparr>"]
    by auto
  have "r = \<lparr>shape = [2], data = [3, - 9999995]\<rparr>" using r(2,3) by simp
  then show ?thesis
    using r(1) apply_logit_mask_spec [of "\<lparr>shape = [2], data = [3, 5]\<rparr>" "\<lparr>shape = [2], data = [1, 0]\<rparr>"]
    by simp
qed







section \<open>Errors, sizes and the constructor\<close>

lemma ebind_Inr [simp]: "ebind (Inr x) f = f x"
  by (simp add: ebind_def)

lemma ebind_Inl [simp]: "ebind (Inl e) f = Inl e"
  by (simp add: ebind_def)

lemma ebind_eq_Inr: "ebind m f = Inr y \<longleftrightarrow> (\<exists>x. m = Inr x \<and> f x = Inr y)"
  by (cases m) simp_all

lemma ebind_eq_Inl: "ebind m f = Inl e \<longleftrightarrow> m = Inl e \<or> (\<exists>x. m = Inr x \<and> f x = Inl e)"
  by (cases m) auto

lemma dict_obs_size_sum:
  "dict_obs_size c entries acc =
     acc + sum_list (map entry_size (filter (\<lambda>e. fst e \<noteq> ACTION_MASK c) entries))"
  by (induction entries arbitrary: acc) (auto simp: entry_size_def)

text \<open>
  Claim C5. For a \<open>Box\<close> space the size is the product of the shape; for a \<open>Dict\<close> space it
  is the sum, over the entries whose key is not the action-mask key, of the products of
  their shapes. The function is given the space only: no batch enters it.
\<close>

theorem get_flattened_obs_size_spec:
  "get_flattened_obs_size c (Box sh) = Inr (prod_list sh) \<and>
   get_flattened_obs_size c (Dict entries) =
     Inr (sum_list (map entry_size (filter (\<lambda>e. fst e \<noteq> ACTION_MASK c) entries)))"
  by (simp add: get_flattened_obs_size_def dict_obs_size_sum)

lemma get_flattened_obs_size_example:
  "get_flattened_obs_size c0 (Dict [(''A'', [3]), (''action_mask'', [2]), (''B'', [4])]) = Inr 7"
  by (simp add: get_flattened_obs_size_def c0_def)

lemma get_flattened_obs_size_unsupported:
  "\<not> is_box_or_dict sp \<Longrightarrow> get_flattened_obs_size c sp = Inl NotImplementedError"
  by (cases sp) (simp_all add: get_flattened_obs_size_def is_box_or_dict_def)

lemma get_flattened_obs_unsupported:
  "\<not> is_box_or_dict (observation_space self) \<Longrightarrow> get_flattened_obs c dm self = Inl NotImplementedError"
  by (cases "observation_space self") (simp_all add: get_flattened_obs_def is_box_or_dict_def)

lemma init_unsupported_action:
  assumes "\<not> is_discrete_or_multidiscrete act"
    "model_config ''fc_dims'' = Some (IntList fc_dims)"
    "dim_pos = ''first'' \<or> dim_pos = ''last''"
    "tag_map policy' = Some (a # as)"
    "env_observation_space env' a = Some osp"
    "env_action_space env' a = Some act"
  shows "init c env' model_config policy' tag_map separate dim_pos params = Inl NotImplementedError"
proof (cases "get_flattened_obs_size c osp")
  case (Inl e)
  then have "e = NotImplementedError"
    by (cases osp) (simp_all add: get_flattened_obs_size_def)
  with Inl assms show ?thesis by (auto simp: init_def)
next
  case (Inr n)
  with assms show ?thesis
    by (cases act) (auto simp: init_def is_discrete_or_multidiscrete_def)
qed

lemma init_unsupported_obs:
  assumes "\<not> is_box_or_dict osp"
    "model_config ''fc_dims'' = Some (IntList fc_dims)"
    "dim_pos = ''first'' \<or> dim_pos = ''last''"
    "tag_map policy' = Some (a # as)"
    "env_observation_space env' a = Some osp"
  shows "init c env' model_config policy' tag_map separate dim_pos params = Inl NotImplementedError"
  using assms get_flattened_obs_size_unsupported [OF assms(1), of c] by (auto simp: init_def)

section \<open>What the methods change\<close>

lemma fetch_loop_frame:
  "fetch_loop c dm es self d = Inr (d', self') \<Longrightarrow> \<exists>m. self' = self\<lparr>action_mask := m\<rparr>"
proof (induction es arbitrary: self d)
  case Nil
  then have "self' = self\<lparr>action_mask := action_mask self\<rparr>" by simp
  then show ?case by blast
next
  case (Cons e es)
  obtain key sh where e: "e = (key, sh)" by (cases e)
  from Cons.prems obtain obs where
    step: "(if key = ACTION_MASK c
      then ebind (reshape_and_flatten_obs self obs) (\<lambda>m.
            fetch_loop c dm es (self\<lparr>action_mask := Some m\<rparr>) d)
      else fetch_loop c dm es self (dict_set d key obs)) = Inr (d', self')"
    unfolding e by (auto simp: ebind_eq_Inr)
  show ?case
  proof (cases "key = ACTION_MASK c")
    case True
    with step obtain m where "fetch_loop c dm es (self\<lparr>action_mask := Some m\<rparr>) d = Inr (d', self')"
      by (auto simp: ebind_eq_Inr)
    from Cons.IH [OF this] obtain m' where "self' = self\<lparr>action_mask := Some m\<rparr>\<lparr>action_mask := m'\<rparr>"
      by blast
    then have "self' = self\<lparr>action_mask := m'\<rparr>" by simp
    then show ?thesis by blast
  next
    case False
    with step have "fetch_loop c dm es self (dict_set d key obs) = Inr (d', self')" by simp
    from Cons.IH [OF this] show ?thesis .
  qed
qed

lemma get_flattened_obs_frame:
  assumes "get_flattened_obs c dm self = Inr (x, self')"
  shows "\<exists>m. self' = self\<lparr>action_mask := m\<rparr>"
proof (cases "observation_space self")
  case (Box sh)
  with assms have "self' = self\<lparr>action_mask := action_mask self\<rparr>"
    by (auto simp: get_flattened_obs_def ebind_eq_Inr)
  then show ?thesis by blast
next
  case (Dict entries)
  with assms obtain d where "fetch_loop c dm entries self [] = Inr (d, self')"
    by (auto simp: get_flattened_obs_def ebind_eq_Inr)
  then show ?thesis by (rule fetch_loop_frame)
qed (use assms in \<open>simp_all add: get_flattened_obs_def\<close>)

lemma forward_ip_frame:
  assumes "forward_ip c dm self obs = Inr (ip, self')"
  shows "\<exists>m. self' = self\<lparr>action_mask := m\<rparr>"
proof (cases obs)
  case None
  with assms obtain x self1 where g: "get_flattened_obs c dm self = Inr (x, self1)"
    and r: "(if \<not> fast_forward_mode self1 \<and> \<not> create_separate_placeholders_for_each_policy self1
            then (case policy_tag_to_agent_id_map self1 (policy self1) of
                    None \<Rightarrow> Inl KeyError
                  | Some agent_ids_for_policy \<Rightarrow>
                      ebind (select_agents agent_ids_for_policy x) (\<lambda>ip. Inr (ip, self1)))
            else Inr (x, self1)) = Inr (ip, self')"
    by (auto simp: forward_ip_def ebind_eq_Inr)
  from r have "self' = self1"
    by (auto simp: ebind_eq_Inr split: if_splits option.splits)
  with get_flattened_obs_frame [OF g] show ?thesis by simp
next
  case (Some o)
  with assms have "self' = self\<lparr>action_mask := action_mask self\<rparr>"
    by (simp add: forward_ip_def)
  then show ?thesis by blast
qed

lemma forward_frame:
  assumes "forward c dm self obs = Inr (r, self')"
  shows "\<exists>m. self' = self\<lparr>action_mask := m\<rparr>"
proof -
  from assms obtain ip where "forward_ip c dm self obs = Inr (ip, self')"
    by (auto simp: forward_def ebind_eq_Inr)
  then show ?thesis by (rule forward_ip_frame)
qed

text \<open>
  Claim C9. Calling \<open>set_fast_forward_mode\<close> twice gives the state that calling it once
  gives, with the flag set, and \<open>forward\<close> behaves alike on both. Once the flag is set no
  method clears it: \<open>set_fast_forward_mode\<close>, \<open>get_flattened_obs\<close> and \<open>forward\<close> return
  states in which it is still set.
\<close>

theorem fast_forward_mode_one_way:
  "fst (set_fast_forward_mode (fst (set_fast_forward_mode self))) = fst (set_fast_forward_mode self) \<and>
   fast_forward_mode (fst (set_fast_forward_mode self)) \<and>
   forward c dm (fst (set_fast_forward_mode (fst (set_fast_forward_mode self)))) obs
     = forward c dm (fst (set_fast_forward_mode self)) obs \<and>
   (fast_forward_mode self \<longrightarrow>
      fast_forward_mode (fst (set_fast_forward_mode self)) \<and>
      (\<forall>x self'. get_flattened_obs c dm self = Inr (x, self') \<longrightarrow> fast_forward_mode self') \<and>
      (\<forall>r self'. forward c dm self obs = Inr (r, self') \<longrightarrow> fast_forward_mode self'))"
proof -
  have idem: "fst (set_fast_forward_mode (fst (set_fast_forward_mode self)))
      = fst (set_fast_forward_mode self)"
    by (simp add: set_fast_forward_mode_def)
  have on: "fast_forward_mode (fst (set_fast_forward_mode self))"
    by (simp add: set_fast_forward_mode_def)
  have g: "fast_forward_mode self'" if "fast_forward_mode self"
    "get_flattened_obs c dm self = Inr (x, self')" for x self'
    using get_flattened_obs_frame [OF that(2)] that(1) by auto
  have f: "fast_forward_mode self'" if "fast_forward_mode self"
    "forward c dm self obs = Inr (r, self')" for r self'
    using forward_frame [OF that(2)] that(1) by auto
  have fw: "forward c dm (fst (set_fast_forward_mode (fst (set_fast_forward_mode self)))) obs
      = forward c dm (fst (set_fast_forward_mode self)) obs"
    by (simp only: idem)
  show ?thesis
    apply (intro conjI impI allI)
         apply (rule idem)
        apply (rule on)
       apply (rule fw)
      apply (rule on)
     apply (erule (1) g)
    apply (erule (1) f)
    done
qed

lemma reshape_not_ValueError: "reshape dims t \<noteq> Inl ValueError"
  by (simp add: reshape_def Let_def)

lemma permute_not_ValueError: "permute dims t \<noteq> Inl ValueError"
  by (simp add: permute_def Let_def split: option.splits)

lemma reshape_and_flatten_obs_not_ValueError:
  assumes "dim_ok self"
  shows "reshape_and_flatten_obs self obs \<noteq> Inl ValueError"
  using assms reshape_not_ValueError permute_not_ValueError
  by (auto simp: reshape_and_flatten_obs_def num_agents_of_def dim_ok_def ebind_eq_Inl Let_def
      split: list.splits option.splits if_splits)

lemma init_Inr:
  assumes "init c env' model_config policy' tag_map separate dim_pos params = Inr self"
  shows "\<exists>fc_dims a as osp n act action_space.
     model_config ''fc_dims'' = Some (IntList fc_dims) \<and>
     (dim_pos = ''first'' \<or> dim_pos = ''last'') \<and>
     tag_map policy' = Some (a # as) \<and>
     env_observation_space env' a = Some osp \<and>
     get_flattened_obs_size c osp = Inr n \<and>
     env_action_space env' a = Some act \<and>
     (case act of Discrete k \<Rightarrow> Inr [k] | MultiDiscrete nvec \<Rightarrow> Inr nvec
        | _ \<Rightarrow> Inl NotImplementedError) = Inr action_space \<and>
     fc_dims \<noteq> [] \<and>
     self = \<lparr>env = env', policy = policy', policy_tag_to_agent_id_map = tag_map,
             create_separate_placeholders_for_each_policy = separate,
             obs_dim_corresponding_to_num_agents = dim_pos,
             fast_forward_mode = False, observation_space = osp,
             fc = map (\<lambda>k. nn_Linear (params k) ((n # butlast fc_dims) ! k) (fc_dims ! k))
                    [0..<length fc_dims],
             policy_head = map (\<lambda>(idx, act_space).
                    nn_Linear (params (length fc_dims + idx)) (last fc_dims) act_space)
                  (enumerate 0 action_space),
             vf_head = nn_Linear (params (length fc_dims + length action_space)) (last fc_dims) 1,
             action_mask = None\<rparr>"
proof -
  obtain v where v: "model_config ''fc_dims'' = Some v"
    using assms by (cases "model_config ''fc_dims''") (simp_all add: init_def)
  obtain fc_dims where fd: "v = IntList fc_dims"
    using assms v by (cases v) (simp_all add: init_def)
  note cfg = v [unfolded fd]
  have dim: "dim_pos = ''first'' \<or> dim_pos = ''last''"
    using assms cfg by (cases "dim_pos = ''first'' \<or> dim_pos = ''last''") (simp_all add: init_def Let_def)
  obtain ids where ids: "tag_map policy' = Some ids"
    using assms cfg dim by (cases "tag_map policy'") (auto simp: init_def Let_def)
  obtain a as where as: "ids = a # as"
    using assms cfg dim ids by (cases ids) (auto simp: init_def Let_def)
  note tm = ids [unfolded as]
  obtain osp where osp: "env_observation_space env' a = Some osp"
    using assms cfg dim tm by (cases "env_observation_space env' a") (auto simp: init_def Let_def)
  obtain n where n: "get_flattened_obs_size c osp = Inr n"
    using assms cfg dim tm osp by (cases "get_flattened_obs_size c osp") (auto simp: init_def Let_def)
  obtain act where act: "env_action_space env' a = Some act"
    using assms cfg dim tm osp n by (cases "env_action_space env' a") (auto simp: init_def Let_def)
  obtain action_space where asp: "(case act of Discrete k \<Rightarrow> Inr [k] | MultiDiscrete nvec \<Rightarrow> Inr nvec
        | _ \<Rightarrow> Inl NotImplementedError) = Inr action_space"
    using assms cfg dim tm osp n act
    by (cases "case act of Discrete k \<Rightarrow> Inr [k] | MultiDiscrete nvec \<Rightarrow> Inr nvec
        | _ \<Rightarrow> (Inl NotImplementedError :: error + nat list)") (auto simp: init_def Let_def)
  have ne: "fc_dims \<noteq> []"
    using assms cfg dim tm osp n act asp by (cases "fc_dims = []") (auto simp: init_def Let_def)
  have "self = \<lparr>env = env', policy = policy', policy_tag_to_agent_id_map = tag_map,
             create_separate_placeholders_for_each_policy = separate,
             obs_dim_corresponding_to_num_agents = dim_pos,
             fast_forward_mode = False, observation_space = osp,
             fc = map (\<lambda>k. nn_Linear (params k) ((n # butlast fc_dims) ! k) (fc_dims ! k))
                    [0..<length fc_dims],
             policy_head = map (\<lambda>(idx, act_space).
                    nn_Linear (params (length fc_dims + idx)) (last fc_dims) act_space)
                  (enumerate 0 action_space),
             vf_head = nn_Linear (params (length fc_dims + length action_space)) (last fc_dims) 1,
             action_mask = None\<rparr>"
    using assms cfg dim tm osp n act asp ne by (auto simp: init_def Let_def)
  with cfg dim tm osp n act asp ne show ?thesis by blast
qed

lemma init_dim_ok:
  assumes "init c env' model_config policy' tag_map separate dim_pos params = Inr self"
  shows "dim_ok self"
  using init_Inr [OF assms] by (auto simp: dim_ok_def)

section \<open>Reshaping observations\<close>

lemma length_indices: "length (indices s) = prod_list s"
  by (induction s) (simp_all add: length_concat comp_def sum_list_triv)

lemma nth_concat_uniform:
  "\<forall>b\<in>set bs. length b = L \<Longrightarrow> i < length bs \<Longrightarrow> j < L \<Longrightarrow> concat bs ! (i * L + j) = bs ! i ! j"
proof (induction bs arbitrary: i)
  case Nil
  then show ?case by simp
next
  case (Cons b bs)
  show ?case
  proof (cases i)
    case 0
    with Cons.prems show ?thesis by (simp add: nth_append)
  next
    case (Suc k)
    with Cons.prems have "concat bs ! (k * L + j) = bs ! k ! j"
      by (intro Cons.IH) simp_all
    with Suc Cons.prems show ?thesis by (simp add: nth_append)
  qed
qed



lemma reshape_3:
  assumes "0 < e" "0 < n" "numel t = e * n * f"
  shows "reshape [int e, int n, - 1] t = Inr \<lparr>shape = [e, n, f], data = data t\<rparr>"
  using assms by (simp add: reshape_def Let_def)


lemma numel_permute_3: "e * n * f = e * f * (n::nat)"
  by simp

lemma reshape_and_flatten_obs_first:
  assumes "obs_dim_corresponding_to_num_agents self = ''first''" "num_agents_of self = Inr n"
    "shape obs = [e, n, f]" "0 < e" "0 < n"
  shows "reshape_and_flatten_obs self obs = Inr obs"
proof -
  have "numel obs = e * n * f" using assms(3) by (simp add: numel_def)
  from reshape_3 [OF assms(4,5) this] assms(1-3) show ?thesis
    by (simp add: reshape_and_flatten_obs_def)
qed



section \<open>The concrete instance\<close>

lemma init_a: "init c0 env_a config_a ''p'' tag_map_a False ''first'' params0 = Inr net_a"
  by (simp add: init_def c0_def env_a_def config_a_def tag_map_a_def net_a_def params0_def
      get_flattened_obs_size_def Let_def)

lemma num_agents_of_a:
  "num_agents_of (net_a\<lparr>action_mask := m, fast_forward_mode := b\<rparr>) = Inr 1"
  by (simp add: num_agents_of_def net_a_def env_a_def)

lemma raf_a:
  assumes "shape t = [1, 1, f]"
  shows "reshape_and_flatten_obs (net_a\<lparr>action_mask := m, fast_forward_mode := b\<rparr>) t = Inr t"
  by (rule reshape_and_flatten_obs_first [OF _ num_agents_of_a assms]) (simp_all add: net_a_def)

lemma cat_last_single: "shape t \<noteq> [] \<Longrightarrow> wf_tensor t \<Longrightarrow> cat_last [t] = Inr t"
proof -
  assume ne: "shape t \<noteq> []" and wf: "wf_tensor t"
  have len: "length (data t) = prod_list (butlast (shape t)) * last (shape t)"
    using wf_tensor_length [OF wf] ne by (simp add: last_dim_def)
  have "concat (map (\<lambda>r. take (last (shape t)) (drop (r * last (shape t)) (data t)))
           [0..<prod_list (butlast (shape t))]) = concat (rows_of (prod_list (butlast (shape t))) (last (shape t)) (data t))"
    by (simp add: rows_of_def)
  moreover have "concat (rows_of n d xs) = xs" if "length xs = n * d" for n d and xs :: "real list"
    using that
  proof (induction n arbitrary: xs)
    case 0
    then show ?case by (simp add: rows_of_def)
  next
    case (Suc n)
    have "concat (rows_of n d (drop d xs)) = drop d xs"
      using Suc.prems by (intro Suc.IH) simp
    then show ?case by (simp add: rows_of_Suc)
  qed
  ultimately have "concat (map (\<lambda>r. take (last (shape t)) (drop (r * last (shape t)) (data t)))
           [0..<prod_list (butlast (shape t))]) = data t"
    using len by simp
  then show ?thesis using ne by (simp add: cat_last_def)
qed

lemma gfo_a:
  "get_flattened_obs c0 dm_a (net_a\<lparr>action_mask := m, fast_forward_mode := b\<rparr>) =
     Inr (\<lparr>shape = [1, 1, 1], data = [5]\<rparr>,
          net_a\<lparr>action_mask := Some \<lparr>shape = [1, 1, 2], data = [1, 0]\<rparr>, fast_forward_mode := b\<rparr>)"
proof -
  let ?s = "net_a\<lparr>action_mask := m, fast_forward_mode := b\<rparr>"
  let ?M = "\<lparr>shape = [1, 1, 2], data = [1, 0]\<rparr>"
  let ?X = "\<lparr>shape = [1, 1, 1], data = [5]\<rparr>"
  let ?s1 = "net_a\<lparr>action_mask := Some ?M, fast_forward_mode := b\<rparr>"
  have os: "observation_space ?s = Dict [(''action_mask'', [2]), (''x'', [1])]"
    and sep: "\<not> create_separate_placeholders_for_each_policy ?s"
    and sep1: "\<not> create_separate_placeholders_for_each_policy ?s1"
    by (simp_all add: net_a_def)
  have upd: "?s\<lparr>action_mask := Some ?M\<rparr> = ?s1" by simp
  have d1: "dm_a (OBSERVATIONS c0 @ ''_'' @ ''action_mask'') = Inr ?M"
    and d2: "dm_a (OBSERVATIONS c0 @ ''_'' @ ''x'') = Inr ?X"
    and k: "ACTION_MASK c0 = ''action_mask''"
    by (simp_all add: c0_def dm_a_def)
  have r1: "reshape_and_flatten_obs ?s ?M = Inr ?M" by (rule raf_a) simp
  have r2: "reshape_and_flatten_obs ?s1 ?X = Inr ?X" by (rule raf_a) simp
  have f: "fetch_loop c0 dm_a [(''action_mask'', [2]), (''x'', [1])] ?s [] = Inr ([(''x'', ?X)], ?s1)"
    by (simp only: fetch_loop.simps sep sep1 if_False d1 d2 k ebind_Inr r1 upd dict_set.simps
        if_True) simp
  have g: "flatten_loop ?s1 [(''x'', ?X)] [] = Inr [(''x'', ?X)]"
    by (simp only: flatten_loop.simps r2 ebind_Inr dict_set.simps)
  have c: "cat_last [?X] = Inr ?X"
    by (rule cat_last_single) (simp_all add: wf_tensor_def numel_def)
  show ?thesis
    unfolding get_flattened_obs_def os
    by (simp only: space.case f g c ebind_Inr prod.case list.map snd_conv)
qed

section \<open>Unsupported spaces, the mode flag and the agent dimension\<close>

text \<open>
  Claim C8. For an observation space that is neither \<open>Box\<close> nor \<open>Dict\<close>,
  \<open>get_flattened_obs_size\<close> and \<open>get_flattened_obs\<close> fail with the unsupported-type error,
  and \<open>forward\<close> passes that error on. The constructor, once its arguments have passed
  the checks that come first (the configuration holds a list \<open>fc_dims\<close>, the agent dimension
  is \<open>first\<close> or \<open>last\<close>, the policy has a first agent with an observation space), fails with
  the unsupported-type error for such an observation space, and for an action space that
  is neither \<open>Discrete\<close> nor \<open>MultiDiscrete\<close>. Errors are results here: nothing catches them.
\<close>

theorem unsupported_space_errors:
  "(\<not> is_box_or_dict sp \<longrightarrow>
      get_flattened_obs_size c sp = Inl NotImplementedError \<and>
      get_flattened_obs c dm (self\<lparr>observation_space := sp\<rparr>) = Inl NotImplementedError \<and>
      forward c dm (self\<lparr>observation_space := sp\<rparr>) None = Inl NotImplementedError) \<and>
   (model_config ''fc_dims'' = Some (IntList fc_dims) \<and>
    (dim_pos = ''first'' \<or> dim_pos = ''last'') \<and>
    tag_map policy' = Some (a # as) \<and>
    env_observation_space env' a = Some osp \<longrightarrow>
      (\<not> is_box_or_dict osp \<longrightarrow>
         init c env' model_config policy' tag_map separate dim_pos params
           = Inl NotImplementedError) \<and>
      (env_action_space env' a = Some act \<and> \<not> is_discrete_or_multidiscrete act \<longrightarrow>
         init c env' model_config policy' tag_map separate dim_pos params
           = Inl NotImplementedError))"
proof (intro conjI impI)
  assume u: "\<not> is_box_or_dict sp"
  show "get_flattened_obs_size c sp = Inl NotImplementedError"
    using u by (rule get_flattened_obs_size_unsupported)
  show g: "get_flattened_obs c dm (self\<lparr>observation_space := sp\<rparr>) = Inl NotImplementedError"
    using u by (intro get_flattened_obs_unsupported) simp
  show "forward c dm (self\<lparr>observation_space := sp\<rparr>) None = Inl NotImplementedError"
    by (simp add: forward_def forward_ip_def g)
next
  assume h: "model_config ''fc_dims'' = Some (IntList fc_dims) \<and>
    (dim_pos = ''first'' \<or> dim_pos = ''last'') \<and>
    tag_map policy' = Some (a # as) \<and>
    env_observation_space env' a = Some osp"
  { assume "\<not> is_box_or_dict osp"
    with h show "init c env' model_config policy' tag_map separate dim_pos params
           = Inl NotImplementedError"
      by (intro init_unsupported_obs [where osp = osp and a = a and as = as and fc_dims = fc_dims])
         simp_all }
  { assume "env_action_space env' a = Some act \<and> \<not> is_discrete_or_multidiscrete act"
    with h show "init c env' model_config policy' tag_map separate dim_pos params
           = Inl NotImplementedError"
      by (intro init_unsupported_action [where osp = osp and a = a and as = as
            and fc_dims = fc_dims and act = act]) simp_all }
qed

theorem unsupported_space_errors_witness:
  "get_flattened_obs_size c0 (Discrete 3) = Inl NotImplementedError \<and>
   get_flattened_obs c0 dm_a (net_a\<lparr>observation_space := Discrete 3\<rparr>) = Inl NotImplementedError \<and>
   forward c0 dm_a (net_a\<lparr>observation_space := Discrete 3\<rparr>) None = Inl NotImplementedError \<and>
   init c0 (env_a\<lparr>env_observation_space := [0 \<mapsto> Discrete 3], env_action_space := [0 \<mapsto> Box [2]]\<rparr>)
     config_a ''p'' tag_map_a False ''first'' params0 = Inl NotImplementedError \<and>
   init c0 (env_a\<lparr>env_action_space := [0 \<mapsto> Box [2]]\<rparr>)
     config_a ''p'' tag_map_a False ''first'' params0 = Inl NotImplementedError"
  using unsupported_space_errors [where sp = "Discrete 3" and c = c0 and dm = dm_a and self = net_a
      and model_config = config_a and fc_dims = "[1]" and dim_pos = "''first''"
      and tag_map = tag_map_a and policy' = "''p''" and a = 0 and as = "[]"
      and env' = "env_a\<lparr>env_observation_space := [0 \<mapsto> Discrete 3], env_action_space := [0 \<mapsto> Box [2]]\<rparr>"
      and osp = "Discrete 3" and act = "Box [2]" and separate = False and params = params0]
    unsupported_space_errors [where sp = "Discrete 3" and c = c0
      and model_config = config_a and fc_dims = "[1]" and dim_pos = "''first''"
      and tag_map = tag_map_a and policy' = "''p''" and a = 0 and as = "[]"
      and env' = "env_a\<lparr>env_action_space := [0 \<mapsto> Box [2]]\<rparr>"
      and osp = "Dict [(''action_mask'', [2]), (''x'', [1])]" and act = "Box [2]"
      and separate = False and params = params0]
  by (simp add: is_box_or_dict_def is_discrete_or_multidiscrete_def config_a_def tag_map_a_def
      env_a_def)

theorem fast_forward_mode_one_way_witness:
  "fast_forward_mode (fst (set_fast_forward_mode net_a)) \<and>
   fst (set_fast_forward_mode (fst (set_fast_forward_mode net_a))) = fst (set_fast_forward_mode net_a) \<and>
   get_flattened_obs c0 dm_a (fst (set_fast_forward_mode net_a)) =
     Inr (\<lparr>shape = [1, 1, 1], data = [5]\<rparr>,
          net_a\<lparr>action_mask := Some \<lparr>shape = [1, 1, 2], data = [1, 0]\<rparr>, fast_forward_mode := True\<rparr>) \<and>
   fast_forward_mode
     (net_a\<lparr>action_mask := Some \<lparr>shape = [1, 1, 2], data = [1, 0]\<rparr>, fast_forward_mode := True\<rparr>)"
proof -
  have s: "fst (set_fast_forward_mode net_a) = net_a\<lparr>action_mask := None, fast_forward_mode := True\<rparr>"
    by (simp add: set_fast_forward_mode_def net_a_def)
  have g: "get_flattened_obs c0 dm_a (fst (set_fast_forward_mode net_a)) =
     Inr (\<lparr>shape = [1, 1, 1], data = [5]\<rparr>,
          net_a\<lparr>action_mask := Some \<lparr>shape = [1, 1, 2], data = [1, 0]\<rparr>, fast_forward_mode := True\<rparr>)"
    unfolding s by (rule gfo_a)
  from fast_forward_mode_one_way [of "fst (set_fast_forward_mode net_a)" c0 dm_a None] g
  show ?thesis by (simp add: set_fast_forward_mode_def)
qed

text \<open>
  Claim C10. A network that the constructor returned has its agent dimension set to
  \<open>first\<close> or \<open>last\<close>. The methods change only \<open>action_mask\<close> and \<open>fast_forward_mode\<close>, and
  in every state that differs from the constructed one in these two fields only,
  \<open>reshape_and_flatten_obs\<close> never fails with \<open>ValueError\<close>, whatever the tensor.
\<close>

theorem reshape_config_error_unreachable:
  "init c env' model_config policy' tag_map separate dim_pos params = Inr self \<longrightarrow>
     dim_ok self \<and>
     (\<forall>m b. let s = self\<lparr>action_mask := m, fast_forward_mode := b\<rparr> in
        (\<forall>obs. reshape_and_flatten_obs s obs \<noteq> Inl ValueError) \<and>
        (\<exists>m' b'. fst (set_fast_forward_mode s) = self\<lparr>action_mask := m', fast_forward_mode := b'\<rparr>) \<and>
        (\<forall>dm x s'. get_flattened_obs c dm s = Inr (x, s') \<longrightarrow>
           (\<exists>m' b'. s' = self\<lparr>action_mask := m', fast_forward_mode := b'\<rparr>)) \<and>
        (\<forall>dm obs r s'. forward c dm s obs = Inr (r, s') \<longrightarrow>
           (\<exists>m' b'. s' = self\<lparr>action_mask := m', fast_forward_mode := b'\<rparr>)))"
proof
  assume i: "init c env' model_config policy' tag_map separate dim_pos params = Inr self"
  have ok: "dim_ok self" using i by (rule init_dim_ok)
  { fix m b
    let ?s = "self\<lparr>action_mask := m, fast_forward_mode := b\<rparr>"
    have "dim_ok ?s" using ok by (simp add: dim_ok_def)
    then have 1: "\<forall>obs. reshape_and_flatten_obs ?s obs \<noteq> Inl ValueError"
      using reshape_and_flatten_obs_not_ValueError by blast
    have "fst (set_fast_forward_mode ?s) = self\<lparr>action_mask := m, fast_forward_mode := True\<rparr>"
      by (simp add: set_fast_forward_mode_def)
    then have 2: "\<exists>m' b'. fst (set_fast_forward_mode ?s) = self\<lparr>action_mask := m', fast_forward_mode := b'\<rparr>"
      by blast
    have 3: "\<exists>m' b'. s' = self\<lparr>action_mask := m', fast_forward_mode := b'\<rparr>"
      if "get_flattened_obs c dm ?s = Inr (x, s')" for dm x s'
    proof -
      from get_flattened_obs_frame [OF that] obtain m' where "s' = ?s\<lparr>action_mask := m'\<rparr>" by blast
      then have "s' = self\<lparr>action_mask := m', fast_forward_mode := b\<rparr>" by simp
      then show ?thesis by blast
    qed
    have 4: "\<exists>m' b'. s' = self\<lparr>action_mask := m', fast_forward_mode := b'\<rparr>"
      if "forward c dm ?s obs = Inr (r, s')" for dm obs r s'
    proof -
      from forward_frame [OF that] obtain m' where "s' = ?s\<lparr>action_mask := m'\<rparr>" by blast
      then have "s' = self\<lparr>action_mask := m', fast_forward_mode := b\<rparr>" by simp
      then show ?thesis by blast
    qed
    have "let s = ?s in
        (\<forall>obs. reshape_and_flatten_obs s obs \<noteq> Inl ValueError) \<and>
        (\<exists>m' b'. fst (set_fast_forward_mode s) = self\<lparr>action_mask := m', fast_forward_mode := b'\<rparr>) \<and>
        (\<forall>dm x s'. get_flattened_obs c dm s = Inr (x, s') \<longrightarrow>
           (\<exists>m' b'. s' = self\<lparr>action_mask := m', fast_forward_mode := b'\<rparr>)) \<and>
        (\<forall>dm obs r s'. forward c dm s obs = Inr (r, s') \<longrightarrow>
           (\<exists>m' b'. s' = self\<lparr>action_mask := m', fast_forward_mode := b'\<rparr>))"
      unfolding Let_def
      apply (intro conjI allI impI)
         apply (rule 1 [rule_format])
        apply (rule 2)
       apply (erule 3)
      apply (erule 4)
      done }
  with ok show "dim_ok self \<and>
     (\<forall>m b. let s = self\<lparr>action_mask := m, fast_forward_mode := b\<rparr> in
        (\<forall>obs. reshape_and_flatten_obs s obs \<noteq> Inl ValueError) \<and>
        (\<exists>m' b'. fst (set_fast_forward_mode s) = self\<lparr>action_mask := m', fast_forward_mode := b'\<rparr>) \<and>
        (\<forall>dm x s'. get_flattened_obs c dm s = Inr (x, s') \<longrightarrow>
           (\<exists>m' b'. s' = self\<lparr>action_mask := m', fast_forward_mode := b'\<rparr>)) \<and>
        (\<forall>dm obs r s'. forward c dm s obs = Inr (r, s') \<longrightarrow>
           (\<exists>m' b'. s' = self\<lparr>action_mask := m', fast_forward_mode := b'\<rparr>)))"
    by (intro conjI allI)
qed

theorem reshape_config_error_unreachable_witness:
  "init c0 env_a config_a ''p'' tag_map_a False ''first'' params0 = Inr net_a \<and>
   dim_ok net_a \<and>
   reshape_and_flatten_obs (net_a\<lparr>action_mask := None, fast_forward_mode := True\<rparr>)
     \<lparr>shape = [], data = [1]\<rparr> \<noteq> Inl ValueError"
  using reshape_config_error_unreachable [of c0 env_a config_a "''p''" tag_map_a False "''first''"
      params0 net_a] init_a
  by (simp add: Let_def)

section \<open>The shape of reshaped observations\<close>




section \<open>The forward pass on the concrete instance\<close>

lemma forward_heads_a:
  "forward_heads (net_a\<lparr>action_mask := m, fast_forward_mode := b\<rparr>) \<lparr>shape = [1, 1, 1], data = [x]\<rparr>
   = ebind (apply_logit_mask \<lparr>shape = [1, 1, 2], data = [0, 0]\<rparr> m)
       (\<lambda>masked. Inr ([softmax masked], \<lparr>shape = [1, 1], data = [0]\<rparr>))"
proof -
  let ?s = "net_a\<lparr>action_mask := m, fast_forward_mode := b\<rparr>"
  have fc: "fc ?s = [nn_Linear (params0 0) 1 1]"
    and ph: "policy_head ?s = [nn_Linear (params0 1) 1 2]"
    and vf: "vf_head ?s = nn_Linear (params0 2) 1 1"
    and am: "action_mask ?s = m"
    by (simp_all add: net_a_def)
  have l1: "fc_layer (nn_Linear (params0 k) 1 1) \<lparr>shape = [1, 1, 1], data = [y]\<rparr>
      = Inr \<lparr>shape = [1, 1, 1], data = [0]\<rparr>" for k y
    by (simp add: fc_layer_def linear_apply_def nn_Linear_def params0_def rows_def rows_of_def
        last_dim_def linear_row_def relu_def)
  have l2: "linear_apply (nn_Linear (params0 k) 1 2) \<lparr>shape = [1, 1, 1], data = [0]\<rparr>
      = Inr \<lparr>shape = [1, 1, 2], data = [0, 0]\<rparr>" for k
    by (simp add: linear_apply_def nn_Linear_def params0_def rows_def rows_of_def
        last_dim_def linear_row_def upt_rec)
  have l3: "linear_apply (nn_Linear (params0 k) 1 1) \<lparr>shape = [1, 1, 1], data = [0]\<rparr>
      = Inr \<lparr>shape = [1, 1, 1], data = [0]\<rparr>" for k
    by (simp add: linear_apply_def nn_Linear_def params0_def rows_def rows_of_def
        last_dim_def linear_row_def)
  have l4: "select_last0 \<lparr>shape = [1, 1, 1], data = [0]\<rparr> = Inr \<lparr>shape = [1, 1], data = [0]\<rparr>"
    by (simp add: select_last0_def rows_def rows_of_def last_dim_def)
  show ?thesis
    unfolding forward_heads_def fc ph vf am
    by (simp only: fc_loop.simps action_probs_of.simps l1 l2 l3 l4 ebind_Inr option.case)
       (cases "apply_logit_mask \<lparr>shape = [1, 1, 2], data = [0, 0]\<rparr> m"; simp)
qed

lemma mask_a:
  "apply_logit_mask \<lparr>shape = [1, 1, 2], data = [0, 0]\<rparr> (Some \<lparr>shape = [1, 1, 2], data = [1, 0]\<rparr>)
     = Inr \<lparr>shape = [1, 1, 2], data = [0, - 10000000]\<rparr>"
  by (simp add: apply_logit_mask_same_shape)

lemma softmax_masked_differs:
  "softmax \<lparr>shape = [1, 1, 2], data = [0, - 10000000]\<rparr> \<noteq> softmax \<lparr>shape = [1, 1, 2], data = [0, 0]\<rparr>"
proof
  assume "softmax \<lparr>shape = [1, 1, 2], data = [0, - 10000000]\<rparr> = softmax \<lparr>shape = [1, 1, 2], data = [0, 0]\<rparr>"
  then have "data (softmax \<lparr>shape = [1, 1, 2], data = [0, - 10000000]\<rparr>) ! 0
      = data (softmax \<lparr>shape = [1, 1, 2], data = [0, 0]\<rparr>) ! 0" by simp
  then have "1 / (1 + exp (- 10000000 :: real)) = 1 / 2"
    by (simp add: softmax_def rows_def rows_of_def last_dim_def softmax_row_def)
  then have "exp (- 10000000 :: real) = 1" by (simp add: field_simps)
  then show False by simp
qed

section \<open>Selecting agents and the stored mask\<close>

lemma those_norm_index:
  "\<forall>i\<in>set ids. 0 \<le> i \<and> i < int n \<Longrightarrow> those (map (norm_index n) ids) = Some (map nat ids)"
  by (induction ids) (simp_all add: norm_index_def)

lemma block_length:
  assumes "length (xs::'a list) = e * n * f" "i < e" "j < n"
  shows "length (take f (drop ((i * n + j) * f) xs)) = f"
proof -
  have "Suc (i * n + j) \<le> Suc i * n" using assms(3) by simp
  also have "\<dots> \<le> e * n" using assms(2) by (intro mult_le_mono1) simp
  finally have "Suc (i * n + j) * f \<le> e * n * f" by (rule mult_le_mono1)
  then have "f \<le> e * n * f - (i * n + j) * f" by simp
  then show ?thesis using assms(1) by simp
qed

lemma select_agents_entries:
  assumes sh: "shape x = [e, n, f]" and wf: "wf_tensor x"
    and ids: "\<forall>i\<in>set ids. 0 \<le> i \<and> i < int n"
  shows "\<exists>r. select_agents ids x = Inr r \<and> shape r = [e, length ids, f] \<and>
        (\<forall>e' k f'. e' < e \<and> k < length ids \<and> f' < f \<longrightarrow>
           data r ! ravel [e, length ids, f] [e', k, f']
             = data x ! ravel [e, n, f] [e', nat (ids ! k), f'])"
proof -
  let ?js = "map nat ids"
  let ?K = "length ids"
  let ?inner = "\<lambda>i. map (\<lambda>j. take f (drop ((i * n + j) * f) (data x))) ?js"
  let ?bs = "map (\<lambda>i. concat (?inner i)) [0..<e]"
  let ?r = "\<lparr>shape = [e, ?K, f], data = concat ?bs\<rparr>"
  have len: "length (data x) = e * n * f"
    using wf sh by (simp add: wf_tensor_def numel_def)
  have jn: "j < n" if "j \<in> set ?js" for j
    using that ids by auto
  have sel: "select_agents ids x = Inr ?r"
    using sh those_norm_index [OF ids] by (simp add: select_agents_def)
  have inner_len: "\<forall>b\<in>set (?inner i). length b = f" if "i < e" for i
    using block_length [OF len that] jn by auto
  have bs_len: "\<forall>b\<in>set ?bs. length b = ?K * f"
  proof
    fix b assume "b \<in> set ?bs"
    then obtain i where i: "i < e" "b = concat (?inner i)" by auto
    from length_concat_uniform [OF inner_len [OF i(1)]] i(2) show "length b = ?K * f" by simp
  qed
  have ent: "data ?r ! ravel [e, ?K, f] [e', k, f'] = data x ! ravel [e, n, f] [e', nat (ids ! k), f']"
    if h: "e' < e \<and> k < ?K \<and> f' < f" for e' k f'
  proof -
    have kf: "k * f + f' < ?K * f"
    proof -
      have "k * f + f' < Suc k * f" using h by simp
      also have "\<dots> \<le> ?K * f" using h by (intro mult_le_mono1) simp
      finally show ?thesis .
    qed
    have "concat ?bs ! (e' * (?K * f) + (k * f + f')) = ?bs ! e' ! (k * f + f')"
      using h kf by (intro nth_concat_uniform [OF bs_len]) simp_all
    also have "\<dots> = concat (?inner e') ! (k * f + f')"
      using h by simp
    also have "\<dots> = ?inner e' ! k ! f'"
      using h by (intro nth_concat_uniform [OF inner_len]) simp_all
    also have "\<dots> = take f (drop ((e' * n + nat (ids ! k)) * f) (data x)) ! f'"
      using h by simp
    also have "\<dots> = data x ! ((e' * n + nat (ids ! k)) * f + f')"
    proof -
      have "nat (ids ! k) < n" using h by (intro jn) simp
      from block_length [OF len _ this, of e'] h
      have "length (take f (drop ((e' * n + nat (ids ! k)) * f) (data x))) = f" by simp
      then have "f \<le> length (data x) - (e' * n + nat (ids ! k)) * f"
        by simp
      then have "(e' * n + nat (ids ! k)) * f + f' < length (data x)"
        using h by linarith
      then show ?thesis using h by simp
    qed
    finally show ?thesis by (simp add: algebra_simps)
  qed
  from sel ent show ?thesis by (intro exI [of _ ?r]) simp
qed

lemma raf_mask_irrelevant:
  "reshape_and_flatten_obs (self\<lparr>action_mask := m\<rparr>) obs = reshape_and_flatten_obs self obs"
  by (cases "shape obs") (simp_all add: reshape_and_flatten_obs_def num_agents_of_def)

lemma fetch_loop_mask:
  "fetch_loop c dm es (self\<lparr>action_mask := m\<rparr>) d =
     (if ACTION_MASK c \<in> fst ` set es then fetch_loop c dm es self d
      else (case fetch_loop c dm es self d of
              Inl err \<Rightarrow> Inl err
            | Inr (d', s) \<Rightarrow> Inr (d', s\<lparr>action_mask := m\<rparr>)))"
proof (induction es arbitrary: self d)
  case Nil
  then show ?case by simp
next
  case (Cons e es)
  obtain key sh where e: "e = (key, sh)" by (cases e)
  let ?name = "if create_separate_placeholders_for_each_policy self
            then OBSERVATIONS c @ ''_'' @ policy self @ ''_'' @ key
            else OBSERVATIONS c @ ''_'' @ key"
  show ?case
  proof (cases "dm ?name")
    case (Inl err)
    then show ?thesis unfolding e by (simp split: if_splits)
  next
    case (Inr obs)
    show ?thesis
    proof (cases "key = ACTION_MASK c")
      case True
      then show ?thesis
        unfolding e using Inr by (simp add: raf_mask_irrelevant split: if_splits)
    next
      case False
      then show ?thesis
        unfolding e using Inr Cons.IH [of self "dict_set d key obs"]
        by (simp split: if_splits)
    qed
  qed
qed

lemma flatten_loop_mask:
  "flatten_loop (self\<lparr>action_mask := m\<rparr>) d acc = flatten_loop self d acc"
  by (induction d arbitrary: acc) (auto simp: raf_mask_irrelevant)

lemma fetch_loop_no_mask:
  "ACTION_MASK c \<notin> fst ` set es \<Longrightarrow> fetch_loop c dm es self d = Inr (d', s') \<Longrightarrow> s' = self"
proof (induction es arbitrary: d)
  case Nil
  then show ?case by simp
next
  case (Cons e es)
  obtain key sh where e: "e = (key, sh)" by (cases e)
  from Cons.prems obtain obs where "fetch_loop c dm es self (dict_set d key obs) = Inr (d', s')"
    unfolding e by (auto simp: ebind_eq_Inr split: if_splits)
  with Cons show ?case by auto
qed

lemma init_b: "init c0 env_b config_a ''p'' tag_map_b False ''first'' params0 = Inr net_b"
  by (simp add: init_def c0_def env_b_def config_a_def tag_map_b_def net_b_def net_a_def params0_def
      get_flattened_obs_size_def Let_def)

lemma get_flattened_obs_mask:
  assumes "observation_space self = Dict entries" "ACTION_MASK c \<in> fst ` set entries"
  shows "get_flattened_obs c dm (self\<lparr>action_mask := m\<rparr>) = get_flattened_obs c dm self"
  using assms by (simp add: get_flattened_obs_def fetch_loop_mask)

lemma get_flattened_obs_no_mask:
  assumes "(\<exists>sh. observation_space self = Box sh) \<or>
     (observation_space self = Dict entries \<and> ACTION_MASK c \<notin> fst ` set entries)"
    "get_flattened_obs c dm self = Inr (x, s1)"
  shows "s1 = self"
  using assms
proof (elim disjE exE conjE)
  fix sh assume "observation_space self = Box sh"
  with assms(2) show ?thesis by (auto simp: get_flattened_obs_def ebind_eq_Inr)
next
  assume d: "observation_space self = Dict entries" and n: "ACTION_MASK c \<notin> fst ` set entries"
  from assms(2) d obtain dd where "fetch_loop c dm entries self [] = Inr (dd, s1)"
    by (auto simp: get_flattened_obs_def ebind_eq_Inr)
  from fetch_loop_no_mask [OF n this] show ?thesis .
qed

lemma fetch_loop_mask_value:
  assumes "fetch_loop c dm es self d = Inr (d', s')" "ACTION_MASK c \<in> fst ` set es"
  shows "\<exists>buf m.
     dm (if create_separate_placeholders_for_each_policy self
         then OBSERVATIONS c @ ''_'' @ policy self @ ''_'' @ ACTION_MASK c
         else OBSERVATIONS c @ ''_'' @ ACTION_MASK c) = Inr buf \<and>
     reshape_and_flatten_obs self buf = Inr m \<and> s' = self\<lparr>action_mask := Some m\<rparr>"
  using assms
proof (induction es arbitrary: self d)
  case Nil
  then show ?case by simp
next
  case (Cons e es)
  obtain key sh where e: "e = (key, sh)" by (cases e)
  let ?name = "\<lambda>k. if create_separate_placeholders_for_each_policy self
            then OBSERVATIONS c @ ''_'' @ policy self @ ''_'' @ k
            else OBSERVATIONS c @ ''_'' @ k"
  from Cons.prems(1) obtain obs where
    ob: "dm (?name key) = Inr obs"
    and step: "(if key = ACTION_MASK c
      then ebind (reshape_and_flatten_obs self obs) (\<lambda>m.
            fetch_loop c dm es (self\<lparr>action_mask := Some m\<rparr>) d)
      else fetch_loop c dm es self (dict_set d key obs)) = Inr (d', s')"
    unfolding e by (auto simp: ebind_eq_Inr split: if_splits)
  show ?case
  proof (cases "key = ACTION_MASK c")
    case True
    with step obtain m where m: "reshape_and_flatten_obs self obs = Inr m"
      and f: "fetch_loop c dm es (self\<lparr>action_mask := Some m\<rparr>) d = Inr (d', s')"
      by (auto simp: ebind_eq_Inr)
    show ?thesis
    proof (cases "ACTION_MASK c \<in> fst ` set es")
      case False
      from fetch_loop_no_mask [OF False f] have "s' = self\<lparr>action_mask := Some m\<rparr>" .
      with ob m True show ?thesis by auto
    next
      case in_rest: True
      from Cons.IH [OF f in_rest]
      have "\<exists>buf m'. dm (?name (ACTION_MASK c)) = Inr buf \<and>
          reshape_and_flatten_obs self buf = Inr m' \<and> s' = self\<lparr>action_mask := Some m'\<rparr>"
        by (cases "create_separate_placeholders_for_each_policy self")
           (simp_all add: raf_mask_irrelevant)
      then show ?thesis by blast
    qed
  next
    case False
    with step have f: "fetch_loop c dm es self (dict_set d key obs) = Inr (d', s')" by simp
    from Cons.prems(2) False have "ACTION_MASK c \<in> fst ` set es" unfolding e by auto
    from Cons.IH [OF f this] show ?thesis .
  qed
qed

lemma get_flattened_obs_mask_value:
  assumes "get_flattened_obs c dm self = Inr (x, s1)"
    "observation_space self = Dict entries" "ACTION_MASK c \<in> fst ` set entries"
  shows "\<exists>buf m.
     dm (if create_separate_placeholders_for_each_policy self
         then OBSERVATIONS c @ ''_'' @ policy self @ ''_'' @ ACTION_MASK c
         else OBSERVATIONS c @ ''_'' @ ACTION_MASK c) = Inr buf \<and>
     reshape_and_flatten_obs self buf = Inr m \<and> s1 = self\<lparr>action_mask := Some m\<rparr>"
proof -
  from assms(1,2) obtain dd where "fetch_loop c dm entries self [] = Inr (dd, s1)"
    by (auto simp: get_flattened_obs_def ebind_eq_Inr)
  from fetch_loop_mask_value [OF this assms(3)] show ?thesis .
qed

lemma forward_heads_mask:
  assumes "forward_heads self ip = Inr out"
  shows "\<exists>op. fc_loop (fc self) ip None = Inr (Some op) \<and>
           action_probs_of (policy_head self) op (action_mask self) = Inr (fst out)"
proof -
  from assms obtain oo where oo: "fc_loop (fc self) ip None = Inr oo"
    and rest: "(case oo of None \<Rightarrow> Inl UnboundLocalError
       | Some op \<Rightarrow>
           ebind (action_probs_of (policy_head self) op (action_mask self)) (\<lambda>action_probs.
           ebind (linear_apply (vf_head self) op) (\<lambda>vals.
           ebind (select_last0 vals) (\<lambda>v. Inr (action_probs, v))))) = Inr out"
    by (auto simp: forward_heads_def ebind_eq_Inr)
  from rest obtain op where op: "oo = Some op" by (cases oo) simp_all
  from rest op have "action_probs_of (policy_head self) op (action_mask self) = Inr (fst out)"
    by (auto simp: ebind_eq_Inr)
  with oo op show ?thesis by blast
qed

text \<open>
  Claim C2, as amended. The mask is kept in the field \<open>action_mask\<close> of the network. A
  forward call that is given an observation tensor leaves the network as it is and
  applies to the logits of every head the mask the field holds, whatever call stored it.
  A forward call without one, for a \<open>Dict\<close> space with the action-mask key, does not
  depend on the mask held before; when it returns, the data manager holds a buffer under
  the name of the action mask, the mask applied to the logits of every head is that
  buffer reshaped by \<open>reshape_and_flatten_obs\<close>, and the network returned holds this
  mask in its field. For a \<open>Box\<close> space, or a \<open>Dict\<close> space without that key, assembling
  the observations leaves the field as it is.
\<close>

theorem action_mask_stored:
  "forward c dm self (Some obs) = ebind (forward_heads self obs) (\<lambda>out. Inr (out, self)) \<and>
   (forward_heads self obs = Inr out \<longrightarrow>
      (\<exists>op. fc_loop (fc self) obs None = Inr (Some op) \<and>
         action_probs_of (policy_head self) op (action_mask self) = Inr (fst out))) \<and>
   (observation_space self = Dict entries \<and> ACTION_MASK c \<in> fst ` set entries \<longrightarrow>
      forward c dm (self\<lparr>action_mask := m0\<rparr>) None = forward c dm self None \<and>
      (forward c dm self None = Inr (out, s1) \<longrightarrow>
        (\<exists>buf m ip op.
           dm (if create_separate_placeholders_for_each_policy self
               then OBSERVATIONS c @ ''_'' @ policy self @ ''_'' @ ACTION_MASK c
               else OBSERVATIONS c @ ''_'' @ ACTION_MASK c) = Inr buf \<and>
           reshape_and_flatten_obs self buf = Inr m \<and>
           s1 = self\<lparr>action_mask := Some m\<rparr> \<and>
           forward_ip c dm self None = Inr (ip, s1) \<and>
           fc_loop (fc self) ip None = Inr (Some op) \<and>
           action_probs_of (policy_head self) op (Some m) = Inr (fst out)))) \<and>
   (((\<exists>sh. observation_space self = Box sh) \<or>
     (observation_space self = Dict entries \<and> ACTION_MASK c \<notin> fst ` set entries)) \<and>
    get_flattened_obs c dm self = Inr (x, s1) \<longrightarrow> s1 = self)"
proof (intro conjI impI)
  show "forward c dm self (Some obs) = ebind (forward_heads self obs) (\<lambda>out. Inr (out, self))"
    by (simp add: forward_def forward_ip_def)
next
  assume "forward_heads self obs = Inr out"
  then show "\<exists>op. fc_loop (fc self) obs None = Inr (Some op) \<and>
         action_probs_of (policy_head self) op (action_mask self) = Inr (fst out)"
    by (rule forward_heads_mask)
next
  assume "observation_space self = Dict entries \<and> ACTION_MASK c \<in> fst ` set entries"
  then have "get_flattened_obs c dm (self\<lparr>action_mask := m0\<rparr>) = get_flattened_obs c dm self"
    by (intro get_flattened_obs_mask [where entries = entries]) auto
  then show "forward c dm (self\<lparr>action_mask := m0\<rparr>) None = forward c dm self None"
    by (simp add: forward_def forward_ip_def)
next
  assume d: "observation_space self = Dict entries \<and> ACTION_MASK c \<in> fst ` set entries"
    and f: "forward c dm self None = Inr (out, s1)"
  from f obtain ip where fi: "forward_ip c dm self None = Inr (ip, s1)"
    and fh: "forward_heads s1 ip = Inr out"
    by (auto simp: forward_def ebind_eq_Inr)
  from fi obtain x where g: "get_flattened_obs c dm self = Inr (x, s1)"
    by (auto simp: forward_ip_def ebind_eq_Inr split: if_splits option.splits)
  from get_flattened_obs_mask_value [OF g] d obtain buf m where
    b: "dm (if create_separate_placeholders_for_each_policy self
               then OBSERVATIONS c @ ''_'' @ policy self @ ''_'' @ ACTION_MASK c
               else OBSERVATIONS c @ ''_'' @ ACTION_MASK c) = Inr buf"
      "reshape_and_flatten_obs self buf = Inr m" "s1 = self\<lparr>action_mask := Some m\<rparr>"
    by blast
  from forward_heads_mask [OF fh] obtain op where
    "fc_loop (fc s1) ip None = Inr (Some op)"
    "action_probs_of (policy_head s1) op (action_mask s1) = Inr (fst out)" by blast
  then have "fc_loop (fc self) ip None = Inr (Some op)"
    "action_probs_of (policy_head self) op (Some m) = Inr (fst out)"
    using b(3) by simp_all
  with b fi show "\<exists>buf m ip op.
           dm (if create_separate_placeholders_for_each_policy self
               then OBSERVATIONS c @ ''_'' @ policy self @ ''_'' @ ACTION_MASK c
               else OBSERVATIONS c @ ''_'' @ ACTION_MASK c) = Inr buf \<and>
           reshape_and_flatten_obs self buf = Inr m \<and>
           s1 = self\<lparr>action_mask := Some m\<rparr> \<and>
           forward_ip c dm self None = Inr (ip, s1) \<and>
           fc_loop (fc self) ip None = Inr (Some op) \<and>
           action_probs_of (policy_head self) op (Some m) = Inr (fst out)"
    by blast
next
  assume "((\<exists>sh. observation_space self = Box sh) \<or>
     (observation_space self = Dict entries \<and> ACTION_MASK c \<notin> fst ` set entries)) \<and>
    get_flattened_obs c dm self = Inr (x, s1)"
  then show "s1 = self" using get_flattened_obs_no_mask by blast
qed

lemma select_agents_a:
  "select_agents [0] \<lparr>shape = [1, 1, 1], data = [y]\<rparr> = Inr \<lparr>shape = [1, 1, 1], data = [y]\<rparr>"
  by (simp add: select_agents_def norm_index_def)

lemma forward_ip_a:
  "forward_ip c0 dm_a (net_a\<lparr>action_mask := m, fast_forward_mode := b\<rparr>) None =
     Inr (\<lparr>shape = [1, 1, 1], data = [5]\<rparr>,
          net_a\<lparr>action_mask := Some \<lparr>shape = [1, 1, 2], data = [1, 0]\<rparr>, fast_forward_mode := b\<rparr>)"
proof -
  let ?s1 = "net_a\<lparr>action_mask := Some \<lparr>shape = [1, 1, 2], data = [1, 0]\<rparr>, fast_forward_mode := b\<rparr>"
  have f: "fast_forward_mode ?s1 = b" "\<not> create_separate_placeholders_for_each_policy ?s1"
    "policy_tag_to_agent_id_map ?s1 (policy ?s1) = Some [0]"
    by (simp_all add: net_a_def tag_map_a_def)
  show ?thesis
    unfolding forward_ip_def
    by (simp only: option.case gfo_a ebind_Inr prod.case f select_agents_a) simp
qed

lemma forward_a:
  "forward c0 dm_a (net_a\<lparr>action_mask := m, fast_forward_mode := b\<rparr>) None =
     Inr (([softmax \<lparr>shape = [1, 1, 2], data = [0, - 10000000]\<rparr>], \<lparr>shape = [1, 1], data = [0]\<rparr>),
          net_a\<lparr>action_mask := Some \<lparr>shape = [1, 1, 2], data = [1, 0]\<rparr>, fast_forward_mode := b\<rparr>)"
  unfolding forward_def
  by (simp only: forward_ip_a ebind_Inr prod.case forward_heads_a mask_a)

lemma net_a_upd: "net_a = net_a\<lparr>action_mask := None, fast_forward_mode := False\<rparr>"
  by (simp add: net_a_def)


lemma gfo_a_nomask:
  "get_flattened_obs c0 dm_a (net_a\<lparr>observation_space := Dict [(''x'', [1])]\<rparr>) =
     Inr (\<lparr>shape = [1, 1, 1], data = [5]\<rparr>, net_a\<lparr>observation_space := Dict [(''x'', [1])]\<rparr>)"
proof -
  let ?s = "net_a\<lparr>observation_space := Dict [(''x'', [1])]\<rparr>"
  let ?X = "\<lparr>shape = [1, 1, 1], data = [5]\<rparr>"
  have os: "observation_space ?s = Dict [(''x'', [1])]"
    and sep: "\<not> create_separate_placeholders_for_each_policy ?s"
    by (simp_all add: net_a_def)
  have d2: "dm_a (OBSERVATIONS c0 @ ''_'' @ ''x'') = Inr ?X"
    and k: "''x'' \<noteq> ACTION_MASK c0"
    by (simp_all add: c0_def dm_a_def)
  have n: "num_agents_of ?s = Inr 1"
    by (simp add: num_agents_of_def net_a_def env_a_def)
  have r2: "reshape_and_flatten_obs ?s ?X = Inr ?X"
    by (rule reshape_and_flatten_obs_first [OF _ n, where e = 1 and f = 1]) (simp_all add: net_a_def)
  have f: "fetch_loop c0 dm_a [(''x'', [1])] ?s [] = Inr ([(''x'', ?X)], ?s)"
    using k by (simp only: fetch_loop.simps sep if_False d2 ebind_Inr dict_set.simps)
  have g: "flatten_loop ?s [(''x'', ?X)] [] = Inr [(''x'', ?X)]"
    by (simp only: flatten_loop.simps r2 ebind_Inr dict_set.simps)
  have c: "cat_last [?X] = Inr ?X"
    by (rule cat_last_single) (simp_all add: wf_tensor_def numel_def)
  show ?thesis
    unfolding get_flattened_obs_def os
    by (simp only: space.case f g c ebind_Inr prod.case list.map snd_conv)
qed


theorem action_mask_stored_witness:
  "forward c0 dm_a (net_a\<lparr>action_mask := Some \<lparr>shape = [1, 1, 2], data = [0, 1]\<rparr>\<rparr>) None
     = forward c0 dm_a net_a None \<and>
   forward c0 dm_a net_a None =
     Inr (([softmax \<lparr>shape = [1, 1, 2], data = [0, - 10000000]\<rparr>], \<lparr>shape = [1, 1], data = [0]\<rparr>),
          net_a\<lparr>action_mask := Some \<lparr>shape = [1, 1, 2], data = [1, 0]\<rparr>\<rparr>) \<and>
   dm_a ''observations_action_mask'' = Inr \<lparr>shape = [1, 1, 2], data = [1, 0]\<rparr> \<and>
   reshape_and_flatten_obs net_a \<lparr>shape = [1, 1, 2], data = [1, 0]\<rparr>
     = Inr \<lparr>shape = [1, 1, 2], data = [1, 0]\<rparr> \<and>
   (\<exists>op. action_probs_of (policy_head net_a) op (Some \<lparr>shape = [1, 1, 2], data = [1, 0]\<rparr>)
      = Inr [softmax \<lparr>shape = [1, 1, 2], data = [0, - 10000000]\<rparr>]) \<and>
   get_flattened_obs c0 dm_a (net_a\<lparr>observation_space := Dict [(''x'', [1])]\<rparr>) =
     Inr (\<lparr>shape = [1, 1, 1], data = [5]\<rparr>, net_a\<lparr>observation_space := Dict [(''x'', [1])]\<rparr>)"
proof -
  let ?M = "\<lparr>shape = [1, 1, 2], data = [1, 0]\<rparr>"
  let ?OUT = "([softmax \<lparr>shape = [1, 1, 2], data = [0, - 10000000]\<rparr>], \<lparr>shape = [1, 1], data = [0]\<rparr>)"
  have h: "observation_space net_a = Dict [(''action_mask'', [2]), (''x'', [1])] \<and>
      ACTION_MASK c0 \<in> fst ` set [(''action_mask'', [2]), (''x'', [1 :: nat])]"
    by (simp add: net_a_def c0_def)
  have f: "forward c0 dm_a net_a None = Inr (?OUT, net_a\<lparr>action_mask := Some ?M\<rparr>)"
    using forward_a [where m = None and b = False] by (simp add: net_a_def)
  have d: "dm_a ''observations_action_mask'' = Inr ?M" by (simp add: dm_a_def)
  have nm: "(if create_separate_placeholders_for_each_policy net_a
               then OBSERVATIONS c0 @ ''_'' @ policy net_a @ ''_'' @ ACTION_MASK c0
               else OBSERVATIONS c0 @ ''_'' @ ACTION_MASK c0) = ''observations_action_mask''"
    by (simp add: net_a_def c0_def)
  have rf: "reshape_and_flatten_obs net_a ?M = Inr ?M"
    using raf_a [where m = None and b = False and t = ?M and f = 2] by (simp add: net_a_def)
  note t = action_mask_stored [where c = c0 and dm = dm_a and self = net_a
        and entries = "[(''action_mask'', [2]), (''x'', [1])]"
        and ?m0.0 = "Some \<lparr>shape = [1, 1, 2], data = [0, 1]\<rparr>"
        and out = ?OUT and ?s1.0 = "net_a\<lparr>action_mask := Some ?M\<rparr>"]
  note t3 = t [THEN conjunct2, THEN conjunct2, THEN conjunct1, rule_format, OF h]
  have 1: "forward c0 dm_a (net_a\<lparr>action_mask := Some \<lparr>shape = [1, 1, 2], data = [0, 1]\<rparr>\<rparr>) None
     = forward c0 dm_a net_a None"
    using t3 by blast
  from t3 [THEN conjunct2, rule_format, OF f] obtain buf m op where
    b: "dm_a ''observations_action_mask'' = Inr buf" "reshape_and_flatten_obs net_a buf = Inr m"
    and ap: "action_probs_of (policy_head net_a) op (Some m) = Inr (fst ?OUT)"
    unfolding nm by blast
  from b d rf have "m = ?M" by simp
  with ap have 2: "\<exists>op. action_probs_of (policy_head net_a) op (Some ?M)
      = Inr [softmax \<lparr>shape = [1, 1, 2], data = [0, - 10000000]\<rparr>]"
    by auto
  have "net_a\<lparr>observation_space := Dict [(''x'', [1])]\<rparr> = net_a\<lparr>observation_space := Dict [(''x'', [1])]\<rparr>"
    using action_mask_stored [where c = c0 and dm = dm_a
        and self = "net_a\<lparr>observation_space := Dict [(''x'', [1])]\<rparr>"
        and entries = "[(''x'', [1])]" and x = "\<lparr>shape = [1, 1, 1], data = [5]\<rparr>"
        and ?s1.0 = "net_a\<lparr>observation_space := Dict [(''x'', [1])]\<rparr>"] gfo_a_nomask
    by simp
  with 1 2 f d rf gfo_a_nomask show ?thesis by blast
qed

text \<open>
  Claim C2 as stated fails. A forward call without an observation tensor stores the mask
  \<open>[1, 0]\<close> of the data manager \<open>dm_a\<close> in the network. A later call that is given an
  observation tensor, while the data manager \<open>dm_b\<close> holds the mask \<open>[1, 1]\<close>, still applies
  \<open>[1, 0]\<close>: its probabilities are those of the masked logits, not those of the logits.
\<close>

theorem action_mask_left_over_counterexample:
  "forward c0 dm_a net_a None =
     Inr (([softmax \<lparr>shape = [1, 1, 2], data = [0, - 10000000]\<rparr>], \<lparr>shape = [1, 1], data = [0]\<rparr>),
          net_a\<lparr>action_mask := Some \<lparr>shape = [1, 1, 2], data = [1, 0]\<rparr>\<rparr>) \<and>
   dm_b ''observations_action_mask'' = Inr \<lparr>shape = [1, 1, 2], data = [1, 1]\<rparr> \<and>
   forward c0 dm_b (net_a\<lparr>action_mask := Some \<lparr>shape = [1, 1, 2], data = [1, 0]\<rparr>\<rparr>)
       (Some \<lparr>shape = [1, 1, 1], data = [7]\<rparr>) =
     Inr (([softmax \<lparr>shape = [1, 1, 2], data = [0, - 10000000]\<rparr>], \<lparr>shape = [1, 1], data = [0]\<rparr>),
          net_a\<lparr>action_mask := Some \<lparr>shape = [1, 1, 2], data = [1, 0]\<rparr>\<rparr>) \<and>
   forward c0 dm_b net_a (Some \<lparr>shape = [1, 1, 1], data = [7]\<rparr>) =
     Inr (([softmax \<lparr>shape = [1, 1, 2], data = [0, 0]\<rparr>], \<lparr>shape = [1, 1], data = [0]\<rparr>), net_a) \<and>
   softmax \<lparr>shape = [1, 1, 2], data = [0, - 10000000]\<rparr> \<noteq> softmax \<lparr>shape = [1, 1, 2], data = [0, 0]\<rparr>"
proof -
  have h: "forward_heads (net_a\<lparr>action_mask := Some \<lparr>shape = [1, 1, 2], data = [1, 0]\<rparr>\<rparr>)
        \<lparr>shape = [1, 1, 1], data = [7]\<rparr>
      = Inr ([softmax \<lparr>shape = [1, 1, 2], data = [0, - 10000000]\<rparr>], \<lparr>shape = [1, 1], data = [0]\<rparr>)"
  proof -
    have eq: "net_a\<lparr>action_mask := Some \<lparr>shape = [1, 1, 2], data = [1, 0]\<rparr>\<rparr>
        = net_a\<lparr>action_mask := Some \<lparr>shape = [1, 1, 2], data = [1, 0]\<rparr>, fast_forward_mode := False\<rparr>"
      by (simp add: net_a_def)
    show ?thesis
      by (subst eq) (simp only: forward_heads_a mask_a ebind_Inr)
  qed
  have 1: "forward c0 dm_a net_a None =
     Inr (([softmax \<lparr>shape = [1, 1, 2], data = [0, - 10000000]\<rparr>], \<lparr>shape = [1, 1], data = [0]\<rparr>),
          net_a\<lparr>action_mask := Some \<lparr>shape = [1, 1, 2], data = [1, 0]\<rparr>\<rparr>)"
    using forward_a [where m = None and b = False] by (simp add: net_a_def)
  have 2: "dm_b ''observations_action_mask'' = Inr \<lparr>shape = [1, 1, 2], data = [1, 1]\<rparr>"
    by (simp add: dm_b_def)
  have 3: "forward c0 dm_b (net_a\<lparr>action_mask := Some \<lparr>shape = [1, 1, 2], data = [1, 0]\<rparr>\<rparr>)
       (Some \<lparr>shape = [1, 1, 1], data = [7]\<rparr>) =
     Inr (([softmax \<lparr>shape = [1, 1, 2], data = [0, - 10000000]\<rparr>], \<lparr>shape = [1, 1], data = [0]\<rparr>),
          net_a\<lparr>action_mask := Some \<lparr>shape = [1, 1, 2], data = [1, 0]\<rparr>\<rparr>)"
    unfolding forward_def forward_ip_def
    by (simp only: option.case ebind_Inr prod.case h)
  have 4: "forward c0 dm_b net_a (Some \<lparr>shape = [1, 1, 1], data = [7]\<rparr>) =
     Inr (([softmax \<lparr>shape = [1, 1, 2], data = [0, 0]\<rparr>], \<lparr>shape = [1, 1], data = [0]\<rparr>), net_a)"
    using forward_heads_a [where m = None and b = False and x = 7]
    by (simp add: forward_def forward_ip_def net_a_upd [symmetric] apply_logit_mask_def)
  from 1 2 3 4 softmax_masked_differs show ?thesis by blast
qed

section \<open>The input of the trunk\<close>

text \<open>
  Claim C6, as amended. The trunk is fed the tensor \<open>forward_ip\<close> returns. Given an
  observation tensor, that is the tensor itself, whatever the flags. Without one, the
  observations are assembled; with shared placeholders and fast-forward off the trunk is
  fed \<^verbatim>\<open>obs[:, ids]\<close> for the agents \<open>ids\<close> of the policy, which for indices within range
  has one row per listed agent, the row of that agent; otherwise it is fed the whole batch.
\<close>

theorem forward_ip_selection:
  "forward c dm self obs =
     ebind (forward_ip c dm self obs) (\<lambda>(ip, s1). ebind (forward_heads s1 ip) (\<lambda>out. Inr (out, s1))) \<and>
   forward_ip c dm self (Some o1) = Inr (o1, self) \<and>
   (get_flattened_obs c dm self = Inr (x, s1) \<longrightarrow>
      (\<not> fast_forward_mode self \<and> \<not> create_separate_placeholders_for_each_policy self \<and>
       policy_tag_to_agent_id_map self (policy self) = Some ids \<longrightarrow>
         forward_ip c dm self None = ebind (select_agents ids x) (\<lambda>ip. Inr (ip, s1))) \<and>
      (fast_forward_mode self \<or> create_separate_placeholders_for_each_policy self \<longrightarrow>
         forward_ip c dm self None = Inr (x, s1))) \<and>
   (shape x = [e, n, f] \<and> wf_tensor x \<and> (\<forall>i\<in>set ids. 0 \<le> i \<and> i < int n) \<longrightarrow>
      (\<exists>r. select_agents ids x = Inr r \<and> shape r = [e, length ids, f] \<and>
        (\<forall>e' k f'. e' < e \<and> k < length ids \<and> f' < f \<longrightarrow>
           data r ! ravel [e, length ids, f] [e', k, f']
             = data x ! ravel [e, n, f] [e', nat (ids ! k), f'])))"
proof (intro conjI impI)
  show "forward c dm self obs =
     ebind (forward_ip c dm self obs) (\<lambda>(ip, s1). ebind (forward_heads s1 ip) (\<lambda>out. Inr (out, s1)))"
    by (simp add: forward_def)
  show "forward_ip c dm self (Some o1) = Inr (o1, self)"
    by (simp add: forward_ip_def)
next
  assume g: "get_flattened_obs c dm self = Inr (x, s1)"
    and h: "\<not> fast_forward_mode self \<and> \<not> create_separate_placeholders_for_each_policy self \<and>
       policy_tag_to_agent_id_map self (policy self) = Some ids"
  from get_flattened_obs_frame [OF g] obtain m where "s1 = self\<lparr>action_mask := m\<rparr>" by blast
  with g h show "forward_ip c dm self None = ebind (select_agents ids x) (\<lambda>ip. Inr (ip, s1))"
    by (simp add: forward_ip_def)
next
  assume g: "get_flattened_obs c dm self = Inr (x, s1)"
    and h: "fast_forward_mode self \<or> create_separate_placeholders_for_each_policy self"
  from get_flattened_obs_frame [OF g] obtain m where "s1 = self\<lparr>action_mask := m\<rparr>" by blast
  with g h show "forward_ip c dm self None = Inr (x, s1)"
    by (auto simp: forward_ip_def)
next
  assume "shape x = [e, n, f] \<and> wf_tensor x \<and> (\<forall>i\<in>set ids. 0 \<le> i \<and> i < int n)"
  then show "\<exists>r. select_agents ids x = Inr r \<and> shape r = [e, length ids, f] \<and>
        (\<forall>e' k f'. e' < e \<and> k < length ids \<and> f' < f \<longrightarrow>
           data r ! ravel [e, length ids, f] [e', k, f']
             = data x ! ravel [e, n, f] [e', nat (ids ! k), f'])"
    by (intro select_agents_entries) simp_all
qed

theorem forward_ip_selection_witness:
  "forward_ip c0 dm_a net_a None =
     Inr (\<lparr>shape = [1, 1, 1], data = [5]\<rparr>,
          net_a\<lparr>action_mask := Some \<lparr>shape = [1, 1, 2], data = [1, 0]\<rparr>\<rparr>) \<and>
   forward_ip c0 dm_a (net_a\<lparr>fast_forward_mode := True\<rparr>) None =
     Inr (\<lparr>shape = [1, 1, 1], data = [5]\<rparr>,
          net_a\<lparr>action_mask := Some \<lparr>shape = [1, 1, 2], data = [1, 0]\<rparr>, fast_forward_mode := True\<rparr>) \<and>
   (\<exists>r. select_agents [1] \<lparr>shape = [1, 2, 1], data = [5, 6]\<rparr> = Inr r \<and> shape r = [1, 1, 1] \<and>
      data r ! 0 = 6)"
proof -
  let ?M = "\<lparr>shape = [1, 1, 2], data = [1, 0]\<rparr>"
  let ?X = "\<lparr>shape = [1, 1, 1], data = [5]\<rparr>"
  have g1: "get_flattened_obs c0 dm_a net_a = Inr (?X, net_a\<lparr>action_mask := Some ?M\<rparr>)"
    using gfo_a [where m = None and b = False] by (simp add: net_a_def)
  have g2: "get_flattened_obs c0 dm_a (net_a\<lparr>fast_forward_mode := True\<rparr>)
      = Inr (?X, net_a\<lparr>action_mask := Some ?M, fast_forward_mode := True\<rparr>)"
    using gfo_a [where m = None and b = True] by (simp add: net_a_def)
  have 1: "forward_ip c0 dm_a net_a None = Inr (?X, net_a\<lparr>action_mask := Some ?M\<rparr>)"
    using forward_ip_selection [where c = c0 and dm = dm_a and self = net_a and x = ?X
        and ?s1.0 = "net_a\<lparr>action_mask := Some ?M\<rparr>" and ids = "[0]"] g1 select_agents_a [of 5]
    by (simp add: net_a_def tag_map_a_def)
  have 2: "forward_ip c0 dm_a (net_a\<lparr>fast_forward_mode := True\<rparr>) None
      = Inr (?X, net_a\<lparr>action_mask := Some ?M, fast_forward_mode := True\<rparr>)"
    using forward_ip_selection [where c = c0 and dm = dm_a and self = "net_a\<lparr>fast_forward_mode := True\<rparr>"
        and x = ?X and ?s1.0 = "net_a\<lparr>action_mask := Some ?M, fast_forward_mode := True\<rparr>"] g2
    by simp
  let ?T = "\<lparr>shape = [1, 2, 1], data = [5, 6]\<rparr>"
  have hyp: "shape ?T = [1, 2, 1] \<and> wf_tensor ?T \<and> (\<forall>i\<in>set [1]. 0 \<le> i \<and> i < int 2)"
    by (simp add: wf_tensor_def numel_def)
  note t = forward_ip_selection [where x = ?T and e = 1 and n = 2 and f = 1 and ids = "[1]"]
  from t [THEN conjunct2, THEN conjunct2, THEN conjunct2] hyp
  obtain r where r: "select_agents [1] ?T = Inr r" "shape r = [1, length [1::int], 1]"
    and ent: "\<forall>e' k f'. e' < 1 \<and> k < length [1::int] \<and> f' < 1 \<longrightarrow>
      data r ! ravel [1, length [1::int], 1] [e', k, f']
        = data ?T ! ravel [1, 2, 1] [e', nat ([1] ! k), f']"
    by blast
  from ent have "data r ! ravel [1, length [1::int], 1] [0, 0, 0]
        = data ?T ! ravel [1, 2, 1] [0, nat ([1] ! 0), 0]"
    by simp
  then have "data r ! 0 = 6" by simp
  moreover have "shape r = [1, 1, 1]" using r(2) by simp
  ultimately show ?thesis using 1 2 r(1) by blast
qed

text \<open>
  Claim C6 as stated fails: with shared placeholders, fast-forward off and a policy that
  governs agent 0 of two agents, a forward call that is given a tensor with the rows of
  both agents feeds the trunk both rows, not the row of agent 0.
\<close>

theorem forward_given_obs_counterexample:
  "\<not> create_separate_placeholders_for_each_policy net_b \<and>
   \<not> fast_forward_mode net_b \<and>
   policy_tag_to_agent_id_map net_b (policy net_b) = Some [0] \<and>
   n_agents (env net_b) = 2 \<and>
   forward_ip c0 dm_a net_b (Some \<lparr>shape = [1, 2, 1], data = [5, 6]\<rparr>)
     = Inr (\<lparr>shape = [1, 2, 1], data = [5, 6]\<rparr>, net_b) \<and>
   select_agents [0] \<lparr>shape = [1, 2, 1], data = [5, 6]\<rparr> = Inr \<lparr>shape = [1, 1, 1], data = [5]\<rparr>"
  by (simp add: net_b_def net_a_def tag_map_b_def env_b_def forward_ip_def select_agents_def
      norm_index_def)


section \<open>Shapes through the layers\<close>

lemma length_linear_row: "length (linear_row l r) = out_features l"
  by (simp add: linear_row_def)

lemma prod_list_snoc: "prod_list (pre @ [d]) = prod_list pre * (d::nat)"
  by simp

lemma linear_apply_shape:
  assumes "linear_apply l x = Inr y"
  shows "shape x \<noteq> [] \<and> last (shape x) = in_features l \<and>
         shape y = butlast (shape x) @ [out_features l] \<and> wf_tensor y"
proof -
  from assms have ne: "shape x \<noteq> []" and la: "last (shape x) = in_features l"
    and y: "y = \<lparr>shape = butlast (shape x) @ [out_features l],
                data = concat (map (linear_row l) (rows x))\<rparr>"
    by (auto simp: linear_apply_def split: if_splits)
  have "\<forall>r\<in>set (map (linear_row l) (rows x)). length r = out_features l"
    by (simp add: length_linear_row)
  from length_concat_uniform [OF this]
  have "length (data y) = prod_list (butlast (shape x)) * out_features l"
    by (simp add: y length_rows)
  then have "wf_tensor y" by (simp add: wf_tensor_def numel_def y)
  with ne la y show ?thesis by simp
qed


lemma wf_relu: "wf_tensor t \<Longrightarrow> wf_tensor (relu t)"
  by (simp add: wf_tensor_def relu_def numel_def)

lemma shape_relu: "shape (relu t) = shape t"
  by (simp add: relu_def)

lemma fc_layer_shape:
  assumes "fc_layer l x = Inr y"
  shows "shape x \<noteq> [] \<and> last (shape x) = in_features l \<and>
         shape y = butlast (shape x) @ [out_features l] \<and> wf_tensor y"
proof -
  from assms obtain z where z: "linear_apply l x = Inr z" "y = relu z"
    by (auto simp: fc_layer_def ebind_eq_Inr)
  from linear_apply_shape [OF z(1)] z(2) show ?thesis
    by (simp add: shape_relu wf_relu)
qed



lemma fc_loop_shape:
  assumes "fc_loop ls ip opt = Inr (Some op)" "ls \<noteq> []"
  shows "shape ip \<noteq> [] \<and> shape op = butlast (shape ip) @ [out_features (last ls)] \<and> wf_tensor op"
  using assms
proof (induction ls arbitrary: ip opt)
  case Nil
  then show ?case by simp
next
  case (Cons l ls)
  from Cons.prems(1) obtain y where y: "fc_layer l ip = Inr y"
    and r: "fc_loop ls y (Some y) = Inr (Some op)"
    by (auto simp: ebind_eq_Inr)
  note s = fc_layer_shape [OF y]
  show ?case
  proof (cases "ls = []")
    case True
    with r s show ?thesis by simp
  next
    case False
    from Cons.IH [OF r False] s False show ?thesis by simp
  qed
qed

lemma chained_nth:
  "chained d ls \<longleftrightarrow> (\<forall>k<length ls. in_features (ls ! k) = (d # map out_features ls) ! k)"
proof (induction ls arbitrary: d)
  case Nil
  then show ?case by simp
next
  case (Cons l ls)
  show ?case
    unfolding chained.simps Cons.IH
    by (auto simp: nth_Cons split: nat.splits)
qed

lemma init_fc_chained:
  "chained n (map (\<lambda>k. nn_Linear (params k) ((n # butlast fc_dims) ! k) (fc_dims ! k))
      [0..<length fc_dims])"
  unfolding chained_nth
  by (auto simp: nn_Linear_def nth_Cons nth_butlast split: nat.splits)

lemma init_fc_last:
  "fc_dims \<noteq> [] \<Longrightarrow>
   out_features (last (map (\<lambda>k. nn_Linear (params k) ((n # butlast fc_dims) ! k) (fc_dims ! k))
      [0..<length fc_dims])) = last fc_dims"
  by (simp add: last_map nn_Linear_def last_conv_nth)

lemma bshape_rev_hd: "bshape_rev (x # xs) ys = Some s \<Longrightarrow> x \<noteq> 1 \<Longrightarrow> \<exists>t. s = x # t"
  by (cases ys) (auto split: if_splits)

lemma broadcast_shapes_last:
  assumes "broadcast_shapes s1 s2 = Some s" "s1 \<noteq> []" "last s1 \<noteq> 1"
  shows "s \<noteq> [] \<and> last s = last s1"
proof -
  from assms(2) obtain xs where r: "rev s1 = last s1 # xs"
    by (cases s1 rule: rev_cases) auto
  from assms(1) obtain s' where s': "bshape_rev (rev s1) (rev s2) = Some s'" "s = rev s'"
    by (auto simp: broadcast_shapes_def)
  from bshape_rev_hd [OF s'(1) [unfolded r] assms(3)] obtain t where "s' = last s1 # t" by blast
  with s'(2) show ?thesis by simp
qed

lemma wf_expand: "wf_tensor (expand s t)"
  by (simp add: wf_tensor_def numel_def expand_def length_indices)

lemma binop_shape:
  assumes "binop f a b = Inr r" "wf_tensor a" "wf_tensor b" "shape a \<noteq> []" "last (shape a) \<noteq> 1"
  shows "wf_tensor r \<and> shape r \<noteq> [] \<and> last (shape r) = last (shape a)"
proof (cases "shape a = shape b")
  case True
  with assms show ?thesis by (auto simp: binop_def wf_tensor_def numel_def)
next
  case False
  with assms(1) obtain s where s: "broadcast_shapes (shape a) (shape b) = Some s"
    and r: "r = \<lparr>shape = s, data = map2 f (data (expand s a)) (data (expand s b))\<rparr>"
    by (auto simp: binop_def split: option.splits)
  have "length (data (expand s a)) = prod_list s" "length (data (expand s b)) = prod_list s"
    using wf_expand [of s a] wf_expand [of s b] by (simp_all add: wf_tensor_def numel_def expand_def)
  then have "wf_tensor r" by (simp add: r wf_tensor_def numel_def)
  with broadcast_shapes_last [OF s assms(4,5)] r show ?thesis by simp
qed

lemma apply_logit_mask_shape:
  assumes "apply_logit_mask logits mo = Inr r" "wf_tensor logits" "\<forall>m. mo = Some m \<longrightarrow> wf_tensor m"
    "shape logits \<noteq> []" "last (shape logits) \<noteq> 1"
  shows "wf_tensor r \<and> shape r \<noteq> [] \<and> last (shape r) = last (shape logits)"
proof (cases mo)
  case None
  with assms show ?thesis by (simp add: apply_logit_mask_def)
next
  case (Some m)
  let ?a = "mul_scalar (ones_like logits) (- 10000000)"
  let ?b = "rsub_scalar 1 m"
  from assms(1) Some obtain lm where lm: "binop (*) ?a ?b = Inr lm" and r: "binop (+) logits lm = Inr r"
    by (auto simp: apply_logit_mask_def ebind_eq_Inr)
  have wa: "wf_tensor ?a" and sa: "shape ?a = shape logits"
    using assms(2) by (simp_all add: wf_tensor_def numel_def mul_scalar_def ones_like_def)
  have wb: "wf_tensor ?b"
    using assms(3) Some by (simp add: wf_tensor_def numel_def rsub_scalar_def)
  from binop_shape [OF lm wa wb] assms(4,5) sa have wlm: "wf_tensor lm" by simp
  from binop_shape [OF r assms(2) wlm assms(4,5)] show ?thesis .
qed

lemma shape_softmax: "shape (softmax t) = shape t"
  by (simp add: softmax_def)

lemma action_probs_of_shape:
  assumes "action_probs_of phs op mo = Inr ps" "\<forall>m. mo = Some m \<longrightarrow> wf_tensor m"
    "\<forall>ph\<in>set phs. 1 < out_features ph"
  shows "length ps = length phs \<and>
     (\<forall>i<length phs. wf_tensor (ps ! i) \<and> shape (ps ! i) \<noteq> [] \<and>
        last (shape (ps ! i)) = out_features (phs ! i) \<and>
        (\<forall>r\<in>set (rows (ps ! i)). sum_list r = 1))"
  using assms
proof (induction phs arbitrary: ps)
  case Nil
  then show ?case by simp
next
  case (Cons ph phs)
  from Cons.prems(1) obtain logits masked rest where
    l: "linear_apply ph op = Inr logits" and m: "apply_logit_mask logits mo = Inr masked"
    and rest: "action_probs_of phs op mo = Inr rest" and ps: "ps = softmax masked # rest"
    by (auto simp: ebind_eq_Inr)
  from linear_apply_shape [OF l] have ls: "shape logits \<noteq> []" "last (shape logits) = out_features ph"
    "wf_tensor logits" by simp_all
  have o: "1 < out_features ph" using Cons.prems(3) by simp
  from apply_logit_mask_shape [OF m ls(3) Cons.prems(2) ls(1)] ls(2) o
  have ms: "wf_tensor masked" "shape masked \<noteq> []" "last (shape masked) = out_features ph" by simp_all
  have pos: "0 < last_dim (shape masked)" using ms(2,3) o by (simp add: last_dim_def)
  have hd: "wf_tensor (softmax masked) \<and> shape (softmax masked) \<noteq> [] \<and>
        last (shape (softmax masked)) = out_features ph \<and>
        (\<forall>r\<in>set (rows (softmax masked)). sum_list r = 1)"
    using ms wf_softmax [OF ms(1)] softmax_rows_sum [OF ms(1) pos] by (simp add: shape_softmax)
  from Cons.IH [OF rest Cons.prems(2)] Cons.prems(3)
  have tl: "length rest = length phs \<and>
     (\<forall>i<length phs. wf_tensor (rest ! i) \<and> shape (rest ! i) \<noteq> [] \<and>
        last (shape (rest ! i)) = out_features (phs ! i) \<and>
        (\<forall>r\<in>set (rows (rest ! i)). sum_list r = 1))" by simp
  show ?case
  proof (intro conjI allI impI)
    show "length ps = length (ph # phs)" using tl ps by simp
    fix i assume "i < length (ph # phs)"
    then show "wf_tensor (ps ! i)" "shape (ps ! i) \<noteq> []"
      "last (shape (ps ! i)) = out_features ((ph # phs) ! i)"
      "\<forall>r\<in>set (rows (ps ! i)). sum_list r = 1"
      using hd tl ps by (cases i; simp)+
  qed
qed


lemma select_last0_shape: "select_last0 t = Inr v \<Longrightarrow> shape v = butlast (shape t)"
  by (auto simp: select_last0_def split: if_splits)


lemma forward_heads_shape:
  assumes "forward_heads self ip = Inr (ps, v)" "\<forall>m. action_mask self = Some m \<longrightarrow> wf_tensor m"
    "\<forall>ph\<in>set (policy_head self). 1 < out_features ph"
  shows "length ps = length (policy_head self) \<and>
     (\<forall>i<length (policy_head self). wf_tensor (ps ! i) \<and> shape (ps ! i) \<noteq> [] \<and>
        last (shape (ps ! i)) = out_features (policy_head self ! i) \<and>
        (\<forall>r\<in>set (rows (ps ! i)). sum_list r = 1)) \<and>
     shape v = butlast (shape ip)"
proof -
  from assms(1) obtain oo where oo: "fc_loop (fc self) ip None = Inr oo"
    and rest: "(case oo of None \<Rightarrow> Inl UnboundLocalError
       | Some op \<Rightarrow>
           ebind (action_probs_of (policy_head self) op (action_mask self)) (\<lambda>action_probs.
           ebind (linear_apply (vf_head self) op) (\<lambda>vals.
           ebind (select_last0 vals) (\<lambda>v. Inr (action_probs, v))))) = Inr (ps, v)"
    by (auto simp: forward_heads_def ebind_eq_Inr)
  from rest obtain op where op: "oo = Some op" by (cases oo) simp_all
  from rest op obtain vals where
    ap: "action_probs_of (policy_head self) op (action_mask self) = Inr ps"
    and vl: "linear_apply (vf_head self) op = Inr vals" and sl: "select_last0 vals = Inr v"
    by (auto simp: ebind_eq_Inr)
  have ne: "fc self \<noteq> []" using oo op by (cases "fc self") simp_all
  from fc_loop_shape [OF oo [unfolded op] ne]
  have s: "shape ip \<noteq> []" "shape op = butlast (shape ip) @ [out_features (last (fc self))]" by simp_all
  from linear_apply_shape [OF vl] select_last0_shape [OF sl] s
  have "shape v = butlast (shape ip)" by simp
  with action_probs_of_shape [OF ap assms(2,3)] show ?thesis by simp
qed


section \<open>Well-formed masks\<close>

lemma prod_list_infer:
  "prod_list (map (\<lambda>d. if d = - 1 then q else nat d) dims) =
     q ^ (length dims - length (filter (\<lambda>d. d \<noteq> - 1) dims))
       * prod_list (map nat (filter (\<lambda>d. d \<noteq> (- 1::int)) dims))"
proof (induction dims)
  case Nil
  then show ?case by simp
next
  case (Cons d dims)
  have le: "length (filter (\<lambda>d. d \<noteq> - 1) dims) \<le> length dims" by simp
  show ?case using Cons le by (simp add: Suc_diff_le)
qed

lemma wf_reshape:
  assumes "reshape dims t = Inr r" "wf_tensor t"
  shows "wf_tensor r"
proof -
  let ?known = "filter (\<lambda>d. d \<noteq> - 1) dims"
  let ?newsize = "prod_list (map nat ?known)"
  show ?thesis
  proof (cases "length ?known = length dims")
    case True
    then have "?known = dims" by (metis filter_True length_filter_less less_irrefl filter_id_conv)
    with assms True show ?thesis
      by (auto simp: reshape_def Let_def wf_tensor_def numel_def split: if_splits)
  next
    case False
    with assms(1) have lt: "\<not> Suc (length ?known) < length dims"
      and nz: "?newsize \<noteq> 0" and dv: "numel t mod ?newsize = 0"
      and r: "r = \<lparr>shape = map (\<lambda>d. if d = - 1 then numel t div ?newsize else nat d) dims,
                   data = data t\<rparr>"
      by (auto simp: reshape_def Let_def split: if_splits)
    have one: "length dims = Suc (length ?known)"
      using lt False length_filter_le [of "\<lambda>d. d \<noteq> - 1" dims] by linarith
    have "prod_list (shape r) = (numel t div ?newsize) * ?newsize"
      unfolding r by (simp add: prod_list_infer one)
    also have "\<dots> = numel t" using dv by (simp add: mod_0_imp_dvd)
    finally show ?thesis using assms(2) by (simp add: wf_tensor_def numel_def r)
  qed
qed

lemma wf_permute: "permute dims t = Inr r \<Longrightarrow> wf_tensor r"
  by (auto simp: permute_def Let_def wf_tensor_def numel_def length_indices
      split: if_splits option.splits)

lemma wf_reshape_and_flatten_obs:
  assumes "reshape_and_flatten_obs self obs = Inr r" "wf_tensor obs"
  shows "wf_tensor r"
proof -
  from assms(1) obtain num_envs rest where sh: "shape obs = num_envs # rest"
    by (cases "shape obs") (simp_all add: reshape_and_flatten_obs_def)
  from assms(1) sh obtain n obs2 where
    o2: "(if obs_dim_corresponding_to_num_agents self = ''first'' then Inr obs
            else if obs_dim_corresponding_to_num_agents self = ''last'' then
              (let shape_len = length (shape obs)
               in ebind (if shape_len = 1 then reshape [- 1, int n] obs else Inr obs)
                    (\<lambda>obs1. permute ([0, - 1] @ map int [1..<shape_len - 1]) obs1))
            else Inl ValueError) = Inr obs2"
    and r: "reshape [int num_envs, int n, - 1] obs2 = Inr r"
    by (auto simp: reshape_and_flatten_obs_def ebind_eq_Inr)
  have "wf_tensor obs2"
  proof (cases "obs_dim_corresponding_to_num_agents self = ''first''")
    case True
    with o2 assms(2) show ?thesis by simp
  next
    case False
    with o2 obtain obs1 where "permute ([0, - 1] @ map int [1..<length (shape obs) - 1]) obs1 = Inr obs2"
      by (auto simp: Let_def ebind_eq_Inr split: if_splits)
    then show ?thesis by (rule wf_permute)
  qed
  with r show ?thesis by (rule wf_reshape)
qed

lemma fetch_loop_mask_wf:
  assumes "fetch_loop c dm es self d = Inr (d', self')"
    "\<forall>m. action_mask self = Some m \<longrightarrow> wf_tensor m"
    "\<forall>name t. dm name = Inr t \<longrightarrow> wf_tensor t"
  shows "\<forall>m. action_mask self' = Some m \<longrightarrow> wf_tensor m"
  using assms(1,2)
proof (induction es arbitrary: self d)
  case Nil
  then show ?case by simp
next
  case (Cons e es)
  obtain key sh where e: "e = (key, sh)" by (cases e)
  from Cons.prems(1) obtain obs where
    ob: "(if create_separate_placeholders_for_each_policy self
            then dm (OBSERVATIONS c @ ''_'' @ policy self @ ''_'' @ key)
            else dm (OBSERVATIONS c @ ''_'' @ key)) = Inr obs"
    and step: "(if key = ACTION_MASK c
      then ebind (reshape_and_flatten_obs self obs) (\<lambda>m.
            fetch_loop c dm es (self\<lparr>action_mask := Some m\<rparr>) d)
      else fetch_loop c dm es self (dict_set d key obs)) = Inr (d', self')"
    unfolding e by (auto simp: ebind_eq_Inr)
  have wo: "wf_tensor obs" using ob assms(3) by (auto split: if_splits)
  show ?case
  proof (cases "key = ACTION_MASK c")
    case True
    with step obtain m where m: "reshape_and_flatten_obs self obs = Inr m"
      and f: "fetch_loop c dm es (self\<lparr>action_mask := Some m\<rparr>) d = Inr (d', self')"
      by (auto simp: ebind_eq_Inr)
    have "wf_tensor m" using m wo by (rule wf_reshape_and_flatten_obs)
    then show ?thesis by (intro Cons.IH [OF f]) simp
  next
    case False
    with step have "fetch_loop c dm es self (dict_set d key obs) = Inr (d', self')" by simp
    from Cons.IH [OF this Cons.prems(2)] show ?thesis .
  qed
qed

lemma forward_ip_mask_wf:
  assumes "forward_ip c dm self obs = Inr (ip, s1)"
    "\<forall>m. action_mask self = Some m \<longrightarrow> wf_tensor m"
    "\<forall>name t. dm name = Inr t \<longrightarrow> wf_tensor t"
  shows "\<forall>m. action_mask s1 = Some m \<longrightarrow> wf_tensor m"
proof (cases obs)
  case (Some o1)
  with assms show ?thesis by (simp add: forward_ip_def)
next
  case None
  with assms(1) obtain x where g: "get_flattened_obs c dm self = Inr (x, s1)"
    by (auto simp: forward_ip_def ebind_eq_Inr split: if_splits option.splits)
  show ?thesis
  proof (cases "observation_space self")
    case (Box sh)
    with g have "s1 = self" by (auto simp: get_flattened_obs_def ebind_eq_Inr)
    with assms(2) show ?thesis by simp
  next
    case (Dict entries)
    with g obtain dd where "fetch_loop c dm entries self [] = Inr (dd, s1)"
      by (auto simp: get_flattened_obs_def ebind_eq_Inr)
    from fetch_loop_mask_wf [OF this assms(2,3)] show ?thesis .
  qed (use g in \<open>simp_all add: get_flattened_obs_def\<close>)
qed

section \<open>The outputs of the forward pass\<close>


lemma init_fields_43:
  assumes "init c env' model_config policy' tag_map separate dim_pos params = Inr self0"
    "tag_map policy' = Some (a # as)" "env_action_space env' a = Some (MultiDiscrete [4, 3])"
  shows "\<exists>n d w4 w3 w1.
     get_flattened_obs_size c (observation_space self0) = Inr n \<and>
     chained n (fc self0) \<and> fc self0 \<noteq> [] \<and> out_features (last (fc self0)) = d \<and>
     policy_head self0 = [nn_Linear w4 d 4, nn_Linear w3 d 3] \<and>
     vf_head self0 = nn_Linear w1 d 1 \<and> action_mask self0 = None"
proof -
  from init_Inr [OF assms(1)] obtain fc_dims a' as' osp n act action_space where
    tm: "tag_map policy' = Some (a' # as')" and n: "get_flattened_obs_size c osp = Inr n"
    and act: "env_action_space env' a' = Some act"
    and asp: "(case act of Discrete k \<Rightarrow> Inr [k] | MultiDiscrete nvec \<Rightarrow> Inr nvec
        | _ \<Rightarrow> Inl NotImplementedError) = Inr action_space"
    and ne: "fc_dims \<noteq> []"
    and s: "self0 = \<lparr>env = env', policy = policy', policy_tag_to_agent_id_map = tag_map,
             create_separate_placeholders_for_each_policy = separate,
             obs_dim_corresponding_to_num_agents = dim_pos,
             fast_forward_mode = False, observation_space = osp,
             fc = map (\<lambda>k. nn_Linear (params k) ((n # butlast fc_dims) ! k) (fc_dims ! k))
                    [0..<length fc_dims],
             policy_head = map (\<lambda>(idx, act_space).
                    nn_Linear (params (length fc_dims + idx)) (last fc_dims) act_space)
                  (enumerate 0 action_space),
             vf_head = nn_Linear (params (length fc_dims + length action_space)) (last fc_dims) 1,
             action_mask = None\<rparr>"
    by blast
  from tm assms(2) have "a' = a" by simp
  with act assms(3) have "act = MultiDiscrete [4, 3]" by simp
  with asp have as43: "action_space = [4, 3]" by simp
  have 1: "get_flattened_obs_size c (observation_space self0) = Inr n" using n s by simp
  have 2: "chained n (fc self0)" unfolding s by (simp add: init_fc_chained)
  have 3: "fc self0 \<noteq> []" using ne s by simp
  have 4: "out_features (last (fc self0)) = last fc_dims"
    unfolding s using init_fc_last [OF ne] by simp
  have 5: "policy_head self0 = [nn_Linear (params (length fc_dims + 0)) (last fc_dims) 4,
       nn_Linear (params (length fc_dims + 1)) (last fc_dims) 3]"
    unfolding s as43 by simp
  have 6: "vf_head self0 = nn_Linear (params (length fc_dims + length action_space)) (last fc_dims) 1"
    and 7: "action_mask self0 = None"
    unfolding s by simp_all
  from 1 2 3 4 5 6 7 show ?thesis by blast
qed




lemma forward_shapes_if_returned:
  assumes h: "init c env' model_config policy' tag_map separate dim_pos params = Inr self0 \<and>
   tag_map policy' = Some (a # as) \<and> env_action_space env' a = Some (MultiDiscrete [4, 3])"
    and g: "(\<forall>t. m = Some t \<longrightarrow> wf_tensor t) \<and> (\<forall>name t. dm name = Inr t \<longrightarrow> wf_tensor t) \<and>
    forward_ip c dm (self0\<lparr>action_mask := m, fast_forward_mode := b\<rparr>) ob = Inr (ip, s1) \<and>
    forward c dm (self0\<lparr>action_mask := m, fast_forward_mode := b\<rparr>) ob = Inr ((probs, v'), s')"
  shows "length probs = 2 \<and>
      shape (probs ! 0) \<noteq> [] \<and> last (shape (probs ! 0)) = 4 \<and>
      shape (probs ! 1) \<noteq> [] \<and> last (shape (probs ! 1)) = 3 \<and>
      (\<forall>p\<in>set probs. wf_tensor p \<and> (\<forall>r\<in>set (rows p). sum_list r = 1)) \<and>
      shape v' = butlast (shape ip)"
proof (intro conjI)
  from h init_fields_43 [of c env' model_config policy' tag_map separate dim_pos params self0 a as]
  obtain d w4 w3 where ph0: "policy_head self0 = [nn_Linear w4 d 4, nn_Linear w3 d 3]"
    by blast
  let ?s = "self0\<lparr>action_mask := m, fast_forward_mode := b\<rparr>"
  from g have fi: "forward_ip c dm ?s ob = Inr (ip, s1)"
    and fw: "forward c dm ?s ob = Inr ((probs, v'), s')" by simp_all
  from fw fi have fh: "forward_heads s1 ip = Inr (probs, v')"
    by (auto simp: forward_def ebind_eq_Inr)
  from forward_ip_frame [OF fi] obtain m' where s1: "s1 = ?s\<lparr>action_mask := m'\<rparr>" by blast
  have ph: "policy_head s1 = [nn_Linear w4 d 4, nn_Linear w3 d 3]" using ph0 s1 by simp
  have mw: "\<forall>t. action_mask s1 = Some t \<longrightarrow> wf_tensor t"
    using g by (intro forward_ip_mask_wf [OF fi]) simp_all
  have o1: "\<forall>ph\<in>set (policy_head s1). 1 < out_features ph"
    unfolding ph by (simp add: nn_Linear_def)
  note fs = forward_heads_shape [OF fh mw o1]
  have len: "length probs = 2" using fs ph by simp
  have sv: "shape v' = butlast (shape ip)" using fs by simp
  note fq = fs [THEN conjunct2, THEN conjunct1, rule_format]
  from len obtain p0 p1 where ps: "probs = [p0, p1]"
    by (cases probs; cases "tl probs") auto
  from fq [of 0] fq [of 1] ph ps
  have r: "wf_tensor p0" "shape p0 \<noteq> []" "last (shape p0) = 4" "\<forall>r\<in>set (rows p0). sum_list r = 1"
    "wf_tensor p1" "shape p1 \<noteq> []" "last (shape p1) = 3" "\<forall>r\<in>set (rows p1). sum_list r = 1"
    by (simp_all add: nn_Linear_def)
  show "length probs = 2" by (rule len)
  show "shape (probs ! 0) \<noteq> []" "last (shape (probs ! 0)) = 4"
    "shape (probs ! 1) \<noteq> []" "last (shape (probs ! 1)) = 3"
    using r ps by simp_all
  show "\<forall>p\<in>set probs. wf_tensor p \<and> (\<forall>r\<in>set (rows p). sum_list r = 1)"
    using r ps by simp
  show "shape v' = butlast (shape ip)" by (rule sv)
qed



section \<open>One mask for two heads\<close>










end
